theory Spec2Isabelle
  imports Complex_Main "HOL-Library.Log_Nat"
begin

section \<open>Asset generator: colours, gradients, outlined labels, font lookup\<close>

text \<open>
  A shallow embedding of \<^verbatim>\<open>generate_assets.py\<close>. Python strings are modelled as
  \<^typ>\<open>string\<close>, one \<^typ>\<open>char\<close> per code point below 256; Python integers
  as \<^typ>\<open>int\<close>; Python floats as the rationals that are IEEE binary64 values,
  every float operation being the exact result rounded to nearest, ties to even.
  An exception is a value of \<open>error\<close>.
\<close>

subsection \<open>Errors\<close>

datatype error = ValueError | LibraryError string

subsection \<open>\<^verbatim>\<open>int(s, 16)\<close> on a string\<close>

text \<open>
  Python's \<^verbatim>\<open>int(s, 16)\<close>: surrounding whitespace is stripped, one sign is
  allowed, then an optional \<^verbatim>\<open>0x\<close> prefix (which one underscore may follow),
  then at least one hexadecimal digit, with single underscores allowed between digits.
  Anything else raises \<^verbatim>\<open>ValueError\<close>. The whitespace that is stripped is
  tab, line feed, vertical tab, form feed, carriage return and space, and the two
  non-ASCII spaces 133 and 160 below 256; the separators 28 to 31 are not stripped. The
  function is applied to the slices of \<open>hex_to_rgb\<close>, of at most two characters.
\<close>

definition py_isspace :: "char \<Rightarrow> bool" where
  "py_isspace c = (let n = (of_char c :: nat) in
     (9 \<le> n \<and> n \<le> 13) \<or> n = 32 \<or> n = 133 \<or> n = 160)"

definition hexval :: "char \<Rightarrow> int option" where
  "hexval c = (let n = (of_char c :: nat) in
     if 48 \<le> n \<and> n \<le> 57 then Some (int n - 48)
     else if 97 \<le> n \<and> n \<le> 102 then Some (int n - 87)
     else if 65 \<le> n \<and> n \<le> 70 then Some (int n - 55)
     else None)"

fun hex_digits :: "int \<Rightarrow> string \<Rightarrow> int option" where
  "hex_digits acc [] = Some acc"
| "hex_digits acc [c] =
     (case hexval c of None \<Rightarrow> None | Some v \<Rightarrow> Some (16 * acc + v))"
| "hex_digits acc (c # d # ds) =
     (if c = CHR ''_'' then
        (case hexval d of None \<Rightarrow> None | Some v \<Rightarrow> hex_digits (16 * acc + v) ds)
      else
        (case hexval c of None \<Rightarrow> None | Some v \<Rightarrow> hex_digits (16 * acc + v) (d # ds)))"

definition strip :: "string \<Rightarrow> string" where
  "strip s = rev (dropWhile py_isspace (rev (dropWhile py_isspace s)))"

definition skip_prefix :: "string \<Rightarrow> string" where
  "skip_prefix s =
     (case s of
        c # x # rest \<Rightarrow>
          (if c = CHR ''0'' \<and> (x = CHR ''x'' \<or> x = CHR ''X'') then
             (case rest of u # more \<Rightarrow> (if u = CHR ''_'' then more else rest) | [] \<Rightarrow> rest)
           else s)
      | _ \<Rightarrow> s)"

definition unsigned16 :: "string \<Rightarrow> int option" where
  "unsigned16 s =
     (case skip_prefix s of
        [] \<Rightarrow> None
      | c # cs \<Rightarrow> (case hexval c of None \<Rightarrow> None | Some v \<Rightarrow> hex_digits v cs))"

definition py_int16 :: "string \<Rightarrow> error + int" where
  "py_int16 s =
     (let t = strip s;
          (neg, u) = (case t of
                        c # cs \<Rightarrow> (if c = CHR ''-'' then (True, cs)
                                   else if c = CHR ''+'' then (False, cs)
                                   else (False, t))
                      | [] \<Rightarrow> (False, t))
      in case unsigned16 u of
           None \<Rightarrow> Inl ValueError
         | Some v \<Rightarrow> Inr (if neg then - v else v))"

subsection \<open>\<^verbatim>\<open>hex_to_rgb\<close>\<close>

type_synonym rgb = "int \<times> int \<times> int"

text \<open>\<^verbatim>\<open>s[i:j]\<close> for \<open>0 \<le> i \<le> j\<close>: never raises, shorter when \<open>s\<close> is short.\<close>

definition slice :: "string \<Rightarrow> nat \<Rightarrow> nat \<Rightarrow> string" where
  "slice s i j = take (j - i) (drop i s)"

text \<open>\<^verbatim>\<open>lstrip('#')\<close> removes every leading \<^verbatim>\<open>#\<close>.\<close>

definition lstrip_hash :: "string \<Rightarrow> string" where
  "lstrip_hash s = dropWhile (\<lambda>c. c = CHR ''#'') s"

definition hex_to_rgb :: "string \<Rightarrow> error + rgb" where
  "hex_to_rgb hex_color =
     (let h = lstrip_hash hex_color in
      case py_int16 (slice h 0 2) of
        Inl e \<Rightarrow> Inl e
      | Inr r \<Rightarrow>
          (case py_int16 (slice h 2 4) of
             Inl e \<Rightarrow> Inl e
           | Inr g \<Rightarrow>
               (case py_int16 (slice h 4 6) of
                  Inl e \<Rightarrow> Inl e
                | Inr b \<Rightarrow> Inr (r, g, b))))"

text \<open>A colour string of the data model: six hexadecimal digits.\<close>

definition is_hexdigit :: "char \<Rightarrow> bool" where
  "is_hexdigit c = (hexval c \<noteq> None)"

definition hex6 :: "string \<Rightarrow> bool" where
  "hex6 ds = (length ds = 6 \<and> list_all is_hexdigit ds)"

definition byte_of :: "char \<Rightarrow> char \<Rightarrow> int" where
  "byte_of a b = 16 * the (hexval a) + the (hexval b)"

subsection \<open>The drawing surface\<close>

text \<open>
  The image library is outside the repository. Its \<^verbatim>\<open>ImageDraw\<close> object is
  modelled as a pixel grid (a list of rows, top row first) together with the list of
  \<^verbatim>\<open>draw.text\<close> calls made so far, oldest first: a later call paints over an
  earlier one. Whether the library can measure or draw a text with a font, and which
  font files exist and load, is a parameter \<open>pil\<close>.
\<close>

datatype font = TrueType string int | DefaultFont

record text_call =
  pos :: "int \<times> int"
  caption :: string
  fnt :: font
  ink :: rgb

record canvas =
  rows :: "rgb list list"
  texts :: "text_call list"

record pil =
  path_exists :: "string \<Rightarrow> bool"
  truetype :: "string \<Rightarrow> int \<Rightarrow> error + font"
  measure :: "font \<Rightarrow> string \<Rightarrow> error + (int \<times> int \<times> int \<times> int)"
  draws :: "font \<Rightarrow> string \<Rightarrow> error option"

text \<open>
  A call either returns or raises; the canvas is mutated in place, so what was painted
  before an exception stays painted.
\<close>

datatype result = Ok canvas | Raise error canvas

text \<open>The canvas a call leaves behind, and whether the call returned.\<close>

fun canvas_of :: "result \<Rightarrow> canvas" where
  "canvas_of (Ok d) = d"
| "canvas_of (Raise e d) = d"

fun returns :: "result \<Rightarrow> bool" where
  "returns (Ok d) = True"
| "returns (Raise e d) = False"

fun for_each :: "'a list \<Rightarrow> ('a \<Rightarrow> canvas \<Rightarrow> result) \<Rightarrow> canvas \<Rightarrow> result" where
  "for_each [] body d = Ok d"
| "for_each (x # xs) body d =
     (case body x d of Raise e d' \<Rightarrow> Raise e d' | Ok d' \<Rightarrow> for_each xs body d')"

text \<open>\<^verbatim>\<open>range(a, b)\<close>.\<close>

definition py_range :: "int \<Rightarrow> int \<Rightarrow> int list" where
  "py_range a b = [a..b - 1]"

text \<open>\<^verbatim>\<open>draw.text(xy, text, font=font, fill=c)\<close>.\<close>

definition draw_text :: "pil \<Rightarrow> canvas \<Rightarrow> int \<times> int \<Rightarrow> string \<Rightarrow> font \<Rightarrow> rgb \<Rightarrow> result" where
  "draw_text P d xy t f c =
     (case draws P f t of
        Some e \<Rightarrow> Raise e d
      | None \<Rightarrow> Ok (d\<lparr>texts := texts d @ [\<lparr>pos = xy, caption = t, fnt = f, ink = c\<rparr>]\<rparr>))"

subsection \<open>\<^verbatim>\<open>draw_text_with_outline\<close>\<close>

definition outline_step ::
  "pil \<Rightarrow> int \<times> int \<Rightarrow> string \<Rightarrow> font \<Rightarrow> string \<Rightarrow> int \<Rightarrow> int \<Rightarrow> canvas \<Rightarrow> result" where
  "outline_step P position text font outline_color adj_x adj_y d =
     (if adj_x \<noteq> 0 \<or> adj_y \<noteq> 0 then
        (case hex_to_rgb outline_color of
           Inl e \<Rightarrow> Raise e d
         | Inr c \<Rightarrow> draw_text P d (fst position + adj_x, snd position + adj_y) text font c)
      else Ok d)"

definition draw_text_with_outline ::
  "pil \<Rightarrow> canvas \<Rightarrow> int \<times> int \<Rightarrow> string \<Rightarrow> font \<Rightarrow> string \<Rightarrow> string \<Rightarrow> int \<Rightarrow> result" where
  "draw_text_with_outline P d position text font fill_color outline_color outline_width =
     (case for_each (py_range (- outline_width) (outline_width + 1))
             (\<lambda>adj_x. for_each (py_range (- outline_width) (outline_width + 1))
                (\<lambda>adj_y. outline_step P position text font outline_color adj_x adj_y)) d of
        Raise e d' \<Rightarrow> Raise e d'
      | Ok d' \<Rightarrow>
          (case hex_to_rgb fill_color of
             Inl e \<Rightarrow> Raise e d'
           | Inr c \<Rightarrow> draw_text P d' position text font c))"

text \<open>The text calls a list of offsets stands for, all in one colour.\<close>

definition halo :: "int \<times> int \<Rightarrow> string \<Rightarrow> font \<Rightarrow> rgb \<Rightarrow> (int \<times> int) list \<Rightarrow> text_call list" where
  "halo position text font c offs =
     map (\<lambda>(dx, dy). \<lparr>pos = (fst position + dx, snd position + dy),
                       caption = text, fnt = font, ink = c\<rparr>) offs"

subsection \<open>Floating point\<close>

text \<open>
  A Python float is an IEEE binary64 number. It is modelled by the rational it denotes;
  \<open>fl\<close> rounds a rational to the nearest binary64 value, ties to the even
  significand, with 53 significant bits and gradual underflow below \<open>2\<^sup>-\<^sup>1\<^sup>0\<^sup>2\<^sup>2\<close>.
  Every float operation of the source is the exact result rounded by \<open>fl\<close>. Overflow
  is not modelled: in the gradient no value comes near the threshold \<open>2\<^sup>1\<^sup>0\<^sup>2\<^sup>4\<close>,
  channels being at most 255 in magnitude and the ratio at most 1, and the sizes that are
  scaled for the labels are sizes of images.
\<close>

definition ilog2 :: "rat \<Rightarrow> int" where
  "ilog2 x = (let (p, q) = quotient_of x; k = bitlen p - bitlen q
              in if 2 powi k \<le> x then k else k - 1)"

definition round_half_even :: "rat \<Rightarrow> int" where
  "round_half_even q = (let f = \<lfloor>q\<rfloor>; r = q - of_int f
     in if r < 1 / 2 then f else if 1 / 2 < r then f + 1 else if even f then f else f + 1)"

text \<open>The exponent of the unit in the last place of a positive \<open>x\<close>.\<close>

definition ulp_exp :: "rat \<Rightarrow> int" where
  "ulp_exp x = max (ilog2 x) (- 1022) - 52"

definition fl :: "rat \<Rightarrow> rat" where
  "fl x = (if x = 0 then 0
           else let u = 2 powi (ulp_exp \<bar>x\<bar>)
                in sgn x * of_int (round_half_even (\<bar>x\<bar> / u)) * u)"

text \<open>\<^verbatim>\<open>a / b\<close> on two integers, \<open>b \<noteq> 0\<close>: the quotient, correctly rounded.\<close>

definition py_truediv :: "int \<Rightarrow> int \<Rightarrow> rat" where
  "py_truediv a b = fl (of_int a / of_int b)"

text \<open>An integer operand of a mixed operation is converted to a float first.\<close>

definition float_of_int :: "int \<Rightarrow> rat" where
  "float_of_int a = fl (of_int a)"

definition int_times_float :: "int \<Rightarrow> rat \<Rightarrow> rat" where
  "int_times_float a x = fl (float_of_int a * x)"

definition int_plus_float :: "int \<Rightarrow> rat \<Rightarrow> rat" where
  "int_plus_float a x = fl (float_of_int a + x)"

text \<open>\<^verbatim>\<open>int(x)\<close> on a float truncates towards zero.\<close>

definition py_int_of_float :: "rat \<Rightarrow> int" where
  "py_int_of_float x = (if 0 \<le> x then \<lfloor>x\<rfloor> else \<lceil>x\<rceil>)"

subsection \<open>\<^verbatim>\<open>create_gradient_background\<close>\<close>

text \<open>
  \<^verbatim>\<open>draw.line([(x0, y), (x1, y)], fill=c)\<close> on a horizontal segment: every pixel of
  row \<open>y\<close> between the two end points, both included, that lies inside the image takes
  the colour; a row outside the image is ignored. The library clips each channel of the
  colour to \<open>[0, 255]\<close>.
\<close>

definition clip8 :: "int \<Rightarrow> int" where
  "clip8 v = max 0 (min 255 v)"

definition clip_rgb :: "rgb \<Rightarrow> rgb" where
  "clip_rgb c = (case c of (r, g, b) \<Rightarrow> (clip8 r, clip8 g, clip8 b))"

definition paint_row :: "rgb list \<Rightarrow> int \<Rightarrow> int \<Rightarrow> rgb \<Rightarrow> rgb list" where
  "paint_row r lo hi c =
     map (\<lambda>(i, p). if lo \<le> int i \<and> int i \<le> hi then c else p) (enumerate 0 r)"

definition draw_hline :: "canvas \<Rightarrow> int \<Rightarrow> int \<Rightarrow> int \<Rightarrow> rgb \<Rightarrow> canvas" where
  "draw_hline d x0 x1 y c =
     (if 0 \<le> y \<and> y < int (length (rows d)) then
        d\<lparr>rows := (rows d)[nat y :=
              paint_row (rows d ! nat y) (min x0 x1) (max x0 x1) (clip_rgb c)]\<rparr>
      else d)"

text \<open>
  The loop body: the ratio, then each channel as \<^verbatim>\<open>int(c1 + (c2 - c1) * ratio)\<close>,
  then the line across row \<open>y\<close>.
\<close>

definition channel :: "int \<Rightarrow> int \<Rightarrow> rat \<Rightarrow> int" where
  "channel c1 c2 ratio = py_int_of_float (int_plus_float c1 (int_times_float (c2 - c1) ratio))"

definition row_color :: "rgb \<Rightarrow> rgb \<Rightarrow> int \<Rightarrow> int \<Rightarrow> rgb" where
  "row_color top_rgb bottom_rgb y height =
     (case top_rgb of (r1, g1, b1) \<Rightarrow>
      case bottom_rgb of (r2, g2, b2) \<Rightarrow>
        (let ratio = py_truediv y height;
             r = channel r1 r2 ratio;
             g = channel g1 g2 ratio;
             b = channel b1 b2 ratio
         in (r, g, b)))"

definition gradient_row :: "rgb \<Rightarrow> rgb \<Rightarrow> int \<Rightarrow> int \<Rightarrow> int \<Rightarrow> canvas \<Rightarrow> result" where
  "gradient_row top_rgb bottom_rgb width height y d =
     Ok (draw_hline d 0 width y (row_color top_rgb bottom_rgb y height))"

definition create_gradient_background ::
  "canvas \<Rightarrow> int \<Rightarrow> int \<Rightarrow> string \<Rightarrow> string \<Rightarrow> result" where
  "create_gradient_background draw width height color_top color_bottom =
     (case hex_to_rgb color_top of
        Inl e \<Rightarrow> Raise e draw
      | Inr top_rgb \<Rightarrow>
          (case hex_to_rgb color_bottom of
             Inl e \<Rightarrow> Raise e draw
           | Inr bottom_rgb \<Rightarrow>
               for_each (py_range 0 height) (gradient_row top_rgb bottom_rgb width height) draw))"

text \<open>
  The words of the specification: the truncated linear interpolation between two
  channels at the ratio \<open>y / height\<close>, in exact arithmetic.
\<close>

definition exact_interpolation :: "int \<Rightarrow> int \<Rightarrow> int \<Rightarrow> int \<Rightarrow> int" where
  "exact_interpolation c1 c2 y height =
     py_int_of_float (of_int c1 + of_int (c2 - c1) * (of_int y / of_int height))"

text \<open>A colour string of the data model, with or without the leading \<^verbatim>\<open>#\<close>.\<close>

definition valid_color :: "string \<Rightarrow> bool" where
  "valid_color s = (hex6 s \<or> (case s of c # ds \<Rightarrow> c = CHR ''#'' \<and> hex6 ds | [] \<Rightarrow> False))"

text \<open>An image of the given width and height.\<close>

definition sized :: "canvas \<Rightarrow> int \<Rightarrow> int \<Rightarrow> bool" where
  "sized d width height =
     (int (length (rows d)) = height \<and> list_all (\<lambda>r. int (length r) = width) (rows d))"

subsection \<open>\<^verbatim>\<open>get_font\<close>\<close>

text \<open>
  \<^verbatim>\<open>ImageFont.load_default()\<close> returns the font built into the library.
  \<^verbatim>\<open>ImageFont.truetype\<close> may raise; \<^verbatim>\<open>os.path.exists\<close> does not.
\<close>

definition load_default :: "error + font" where
  "load_default = Inr DefaultFont"

definition font_options :: "bool \<Rightarrow> string option list" where
  "font_options bold =
     [Some (if bold then ''/system/fonts/Roboto-Bold.ttf''
            else ''/system/fonts/Roboto-Regular.ttf''),
      Some (if bold then ''/system/fonts/DroidSans-Bold.ttf''
            else ''/system/fonts/DroidSans.ttf''),
      Some (if bold then ''/data/data/com.termux/files/usr/share/fonts/TTF/DejaVuSans-Bold.ttf''
            else ''/data/data/com.termux/files/usr/share/fonts/TTF/DejaVuSans.ttf''),
      None]"

text \<open>
  The loop over the candidates: a candidate that is \<^verbatim>\<open>None\<close>, empty or absent is
  passed over; one that fails to load raises inside the \<^verbatim>\<open>try\<close>, and the bare
  \<^verbatim>\<open>except\<close> continues with the next. After the loop comes the default font.
\<close>

fun font_loop :: "pil \<Rightarrow> int \<Rightarrow> string option list \<Rightarrow> error + font" where
  "font_loop P sz [] = load_default"
| "font_loop P sz (font_path # rest) =
     (case font_path of
        None \<Rightarrow> font_loop P sz rest
      | Some p \<Rightarrow>
          (if p \<noteq> [] \<and> path_exists P p then
             (case truetype P p sz of
                Inr f \<Rightarrow> Inr f
              | Inl e \<Rightarrow> font_loop P sz rest)
           else font_loop P sz rest))"

definition get_font :: "pil \<Rightarrow> int \<Rightarrow> bool \<Rightarrow> error + font" where
  "get_font P sz bold = font_loop P sz (font_options bold)"

text \<open>A candidate path that is present and loads at the given size.\<close>

definition usable :: "pil \<Rightarrow> int \<Rightarrow> string \<Rightarrow> bool" where
  "usable P sz p =
     (p \<noteq> [] \<and> path_exists P p
      \<and> (case truetype P p sz of Inr f \<Rightarrow> True | Inl e \<Rightarrow> False))"

text \<open>The candidate paths of the list, in order.\<close>

definition candidates :: "bool \<Rightarrow> string list" where
  "candidates bold = List.map_filter (\<lambda>c. c) (font_options bold)"

subsection \<open>The labels of the three images\<close>

definition PRIMARY_BLUE :: string where "PRIMARY_BLUE = ''#2E7CEE''"
definition DARK_BLUE :: string where "DARK_BLUE = ''#1E5BB8''"
definition LIGHT_BLUE :: string where "LIGHT_BLUE = ''#5BA3FF''"
definition WHITE :: string where "WHITE = ''#FFFFFF''"
definition GOLD :: string where "GOLD = ''#FFD700''"

text \<open>What is printed: the banner of an image, or the note of the first label.\<close>

datatype line = Creating string int int | Note error

text \<open>
  \<^verbatim>\<open>Image.new('RGB', (w, h), c)\<close>: the library refuses a negative size and fills the
  image with the colour.
\<close>

definition image_new :: "int \<Rightarrow> int \<Rightarrow> rgb \<Rightarrow> error + canvas" where
  "image_new w h c =
     (if w < 0 \<or> h < 0 then Inl ValueError
      else Inr \<lparr>rows = replicate (nat h) (replicate (nat w) (clip_rgb c)), texts = []\<rparr>)"

text \<open>\<^verbatim>\<open>draw.textbbox(xy, text, font=font)\<close>: the box of the text, moved to \<open>xy\<close>.\<close>

definition textbbox ::
  "pil \<Rightarrow> int \<times> int \<Rightarrow> string \<Rightarrow> font \<Rightarrow> error + (int \<times> int \<times> int \<times> int)" where
  "textbbox P xy t f =
     (case measure P f t of
        Inl e \<Rightarrow> Inl e
      | Inr (l, u, r, b) \<Rightarrow> Inr (l + fst xy, u + snd xy, r + fst xy, b + snd xy))"

text \<open>
  Every label is one \<^verbatim>\<open>try\<close> block of the same shape: measure the text, compute the
  position from the box, draw the outlined text. The handler of the first label of the
  app icon prints a note; all the others are \<^verbatim>\<open>except: pass\<close>.
\<close>

datatype handler = Pass | PrintNote

definition label_body ::
  "pil \<Rightarrow> canvas \<Rightarrow> string \<Rightarrow> font \<Rightarrow> (int \<times> int \<times> int \<times> int \<Rightarrow> int \<times> int)
     \<Rightarrow> string \<Rightarrow> string \<Rightarrow> int \<Rightarrow> result" where
  "label_body P d t f place fill_color outline_color w =
     (case textbbox P (0, 0) t f of
        Inl e \<Rightarrow> Raise e d
      | Inr bbox \<Rightarrow> draw_text_with_outline P d (place bbox) t f fill_color outline_color w)"

definition try_label ::
  "pil \<Rightarrow> handler \<Rightarrow> string \<Rightarrow> font \<Rightarrow> (int \<times> int \<times> int \<times> int \<Rightarrow> int \<times> int)
     \<Rightarrow> string \<Rightarrow> string \<Rightarrow> int \<Rightarrow> canvas \<times> line list \<Rightarrow> canvas \<times> line list" where
  "try_label P h t f place fill_color outline_color w st =
     (case label_body P (fst st) t f place fill_color outline_color w of
        Ok d' \<Rightarrow> (d', snd st)
      | Raise e d' \<Rightarrow> (d', case h of Pass \<Rightarrow> snd st | PrintNote \<Rightarrow> snd st @ [Note e]))"

text \<open>\<^verbatim>\<open>int(n * x)\<close> for an integer \<open>n\<close> and a float literal \<open>x\<close>.\<close>

definition scaled :: "int \<Rightarrow> rat \<Rightarrow> int" where
  "scaled n x = py_int_of_float (int_times_float n (fl x))"

text \<open>Horizontal centring: \<^verbatim>\<open>(size - text_width) // 2\<close>.\<close>

definition centred :: "int \<Rightarrow> int \<Rightarrow> int \<Rightarrow> int" where
  "centred sz lo hi = (sz - (hi - lo)) div 2"

text \<open>
  The position of a label, from the box of its text. The large \<^verbatim>\<open>Rx\<close> is centred
  both ways and raised by a fraction \<open>k\<close> of the height; every other label is centred
  horizontally at the fraction \<open>k\<close> of the height.
\<close>

definition centre_place :: "int \<Rightarrow> int \<Rightarrow> rat \<Rightarrow> int \<times> int \<times> int \<times> int \<Rightarrow> int \<times> int" where
  "centre_place width height k bbox =
     (case bbox of (l, u, r, b) \<Rightarrow> (centred width l r, centred height u b - scaled height k))"

definition row_place :: "int \<Rightarrow> int \<Rightarrow> rat \<Rightarrow> int \<times> int \<times> int \<times> int \<Rightarrow> int \<times> int" where
  "row_place width height k bbox =
     (case bbox of (l, u, r, b) \<Rightarrow> (centred width l r, scaled height k))"

definition create_app_icon :: "pil \<Rightarrow> int \<Rightarrow> line list \<Rightarrow> (error + canvas) \<times> line list" where
  "create_app_icon P sz out0 =
     (let out = out0 @ [Creating ''app icon'' sz sz] in
      case hex_to_rgb PRIMARY_BLUE of Inl e \<Rightarrow> (Inl e, out) | Inr c \<Rightarrow>
      case image_new sz sz c of Inl e \<Rightarrow> (Inl e, out) | Inr icon \<Rightarrow>
      case create_gradient_background icon sz sz LIGHT_BLUE DARK_BLUE of
        Raise e d \<Rightarrow> (Inl e, out) | Ok d0 \<Rightarrow>
      case get_font P (scaled sz (1 / 2)) True of Inl e \<Rightarrow> (Inl e, out) | Inr font_rx \<Rightarrow>
      let st1 = try_label P PrintNote ''Rx'' font_rx
                  (centre_place sz sz (5 / 100))
                  WHITE DARK_BLUE 4 (d0, out) in
      case get_font P (scaled sz (1 / 10)) True of
        Inl e \<Rightarrow> (Inl e, snd st1) | Inr font_app \<Rightarrow>
      let st2 = try_label P Pass ''UWtopia'' font_app
                  (row_place sz sz (15 / 100))
                  WHITE DARK_BLUE 2 st1 in
      case get_font P (scaled sz (55 / 1000)) False of
        Inl e \<Rightarrow> (Inl e, snd st2) | Inr font_credit \<Rightarrow>
      let st3 = try_label P Pass ''@DrEndris'' font_credit
                  (row_place sz sz (85 / 100))
                  GOLD DARK_BLUE 2 st2 in
      (Inr (fst st3), snd st3))"

definition create_adaptive_icon ::
  "pil \<Rightarrow> int \<Rightarrow> line list \<Rightarrow> (error + canvas) \<times> line list" where
  "create_adaptive_icon P sz out0 =
     (let out = out0 @ [Creating ''adaptive icon'' sz sz] in
      case hex_to_rgb WHITE of Inl e \<Rightarrow> (Inl e, out) | Inr c \<Rightarrow>
      case image_new sz sz c of Inl e \<Rightarrow> (Inl e, out) | Inr icon \<Rightarrow>
      case create_gradient_background icon sz sz WHITE LIGHT_BLUE of
        Raise e d \<Rightarrow> (Inl e, out) | Ok d0 \<Rightarrow>
      case get_font P (scaled sz (55 / 100)) True of Inl e \<Rightarrow> (Inl e, out) | Inr font_rx \<Rightarrow>
      let st1 = try_label P Pass ''Rx'' font_rx
                  (centre_place sz sz (8 / 100))
                  PRIMARY_BLUE WHITE 3 (d0, out) in
      case get_font P (scaled sz (8 / 100)) True of
        Inl e \<Rightarrow> (Inl e, snd st1) | Inr font_app \<Rightarrow>
      let st2 = try_label P Pass ''UWtopia'' font_app
                  (row_place sz sz (65 / 100))
                  PRIMARY_BLUE WHITE 2 st1 in
      (Inr (fst st2), snd st2))"

definition create_splash_screen ::
  "pil \<Rightarrow> int \<Rightarrow> int \<Rightarrow> line list \<Rightarrow> (error + canvas) \<times> line list" where
  "create_splash_screen P width height out0 =
     (let out = out0 @ [Creating ''splash screen'' width height] in
      case hex_to_rgb PRIMARY_BLUE of Inl e \<Rightarrow> (Inl e, out) | Inr c \<Rightarrow>
      case image_new width height c of Inl e \<Rightarrow> (Inl e, out) | Inr splash \<Rightarrow>
      case create_gradient_background splash width height LIGHT_BLUE DARK_BLUE of
        Raise e d \<Rightarrow> (Inl e, out) | Ok d0 \<Rightarrow>
      case get_font P (scaled width (1 / 2)) True of Inl e \<Rightarrow> (Inl e, out) | Inr font_rx \<Rightarrow>
      let st1 = try_label P Pass ''Rx'' font_rx
                  (centre_place width height (1 / 10))
                  WHITE DARK_BLUE 5 (d0, out) in
      case get_font P (scaled width (12 / 100)) True of
        Inl e \<Rightarrow> (Inl e, snd st1) | Inr font_title \<Rightarrow>
      let st2 = try_label P Pass ''UWtopia Rx'' font_title
                  (row_place width height (15 / 100))
                  WHITE DARK_BLUE 3 st1 in
      case get_font P (scaled width (6 / 100)) False of
        Inl e \<Rightarrow> (Inl e, snd st2) | Inr font_subtitle \<Rightarrow>
      let st3 = try_label P Pass ''Medical Question Bank'' font_subtitle
                  (row_place width height (24 / 100))
                  WHITE DARK_BLUE 2 st2 in
      case get_font P (scaled width (55 / 1000)) False of
        Inl e \<Rightarrow> (Inl e, snd st3) | Inr font_credit \<Rightarrow>
      let st4 = try_label P Pass ''by @DrEndris'' font_credit
                  (row_place width height (88 / 100))
                  GOLD DARK_BLUE 2 st3 in
      (Inr (fst st4), snd st4))"

text \<open>A channel value of the data model.\<close>

definition byte :: "int \<Rightarrow> bool" where
  "byte v = (0 \<le> v \<and> v \<le> 255)"

text \<open>The offsets of the filled square of radius \<open>w\<close>, centre left out, in drawing order.\<close>

definition offsets :: "int \<Rightarrow> (int \<times> int) list" where
  "offsets w = filter (\<lambda>p. p \<noteq> (0, 0)) (List.product [- w..w] [- w..w])"

text \<open>
  What one label adds to the text draws: nothing when the font cannot measure or draw the
  text, and otherwise the halo followed by the fill draw.
\<close>

definition renders :: "pil \<Rightarrow> font \<Rightarrow> string \<Rightarrow> bool" where
  "renders P f t =
     ((case measure P f t of Inr b \<Rightarrow> True | Inl e \<Rightarrow> False) \<and> draws P f t = None)"

definition label_draws ::
  "pil \<Rightarrow> string \<Rightarrow> font \<Rightarrow> (int \<times> int \<times> int \<times> int \<Rightarrow> int \<times> int) \<Rightarrow> rgb \<Rightarrow> rgb \<Rightarrow> int
     \<Rightarrow> text_call list" where
  "label_draws P t f place fc oc w =
     (case measure P f t of
        Inl e \<Rightarrow> []
      | Inr b \<Rightarrow>
          (if draws P f t = None then
             halo (place b) t f oc (offsets w)
               @ [\<lparr>pos = place b, caption = t, fnt = f, ink = fc\<rparr>]
           else []))"

text \<open>
  An example environment: no font file is present, and the library can neither measure
  nor draw a text with the default font it falls back to.
\<close>

definition no_fonts :: pil where
  "no_fonts =
     \<lparr>path_exists = (\<lambda>p. False),
      truetype = (\<lambda>p n. Inl (LibraryError ''cannot open resource'')),
      measure = (\<lambda>f t. Inl (LibraryError ''Only supported for TrueType fonts'')),
      draws = (\<lambda>f t. Some (LibraryError ''cannot draw''))\<rparr>"

subsection \<open>Facts about the parser\<close>

lemma hexval_range: "hexval c = Some v \<Longrightarrow> 0 \<le> v \<and> v \<le> 15"
  by (auto simp: hexval_def Let_def split: if_splits)

lemma hexdigit_not_space: "is_hexdigit c \<Longrightarrow> \<not> py_isspace c"
  by (auto simp: is_hexdigit_def hexval_def py_isspace_def Let_def split: if_splits)

lemma hexdigit_not_special:
  assumes "is_hexdigit c"
  shows "c \<noteq> CHR ''#''" "c \<noteq> CHR ''-''" "c \<noteq> CHR ''+''" "c \<noteq> CHR ''_''"
    "c \<noteq> CHR ''x''" "c \<noteq> CHR ''X''"
  using assms by (auto simp: is_hexdigit_def hexval_def Let_def)

lemma py_int16_pair:
  assumes "is_hexdigit a" "is_hexdigit b"
  shows "py_int16 [a, b] = Inr (byte_of a b)"
proof -
  obtain va vb where v: "hexval a = Some va" "hexval b = Some vb"
    using assms by (auto simp: is_hexdigit_def)
  have s: "strip [a, b] = [a, b]"
    using assms by (simp add: strip_def hexdigit_not_space)
  have p: "skip_prefix [a, b] = [a, b]"
    using hexdigit_not_special(5,6)[OF assms(2)] by (simp add: skip_prefix_def)
  have u: "unsigned16 [a, b] = Some (16 * va + vb)"
    by (simp add: unsigned16_def p v)
  show ?thesis
    using hexdigit_not_special(2,3)[OF assms(1)]
    by (simp add: py_int16_def s u byte_of_def v)
qed

lemma hex_to_rgb_digits:
  assumes "is_hexdigit a" "is_hexdigit b" "is_hexdigit c"
    "is_hexdigit d" "is_hexdigit e" "is_hexdigit f"
  shows "hex_to_rgb [a, b, c, d, e, f] = Inr (byte_of a b, byte_of c d, byte_of e f)"
proof -
  have "lstrip_hash [a, b, c, d, e, f] = [a, b, c, d, e, f]"
    using hexdigit_not_special(1)[OF assms(1)] by (simp add: lstrip_hash_def)
  then show ?thesis
    by (simp add: hex_to_rgb_def slice_def py_int16_pair assms)
qed

lemma hex_to_rgb_hash: "hex_to_rgb (CHR ''#'' # s) = hex_to_rgb s"
  by (simp add: hex_to_rgb_def lstrip_hash_def)

lemma byte_of_range:
  assumes "is_hexdigit a" "is_hexdigit b"
  shows "0 \<le> byte_of a b \<and> byte_of a b \<le> 255"
proof -
  obtain va vb where v: "hexval a = Some va" "hexval b = Some vb"
    using assms by (auto simp: is_hexdigit_def)
  from hexval_range[OF v(1)] hexval_range[OF v(2)] show ?thesis
    by (simp add: byte_of_def v)
qed

lemma hex6_cases:
  assumes "hex6 ds"
  obtains a b c d e f where "ds = [a, b, c, d, e, f]"
    "is_hexdigit a" "is_hexdigit b" "is_hexdigit c"
    "is_hexdigit d" "is_hexdigit e" "is_hexdigit f"
proof -
  from assms have len: "length ds = 6" and all: "list_all is_hexdigit ds"
    by (simp_all add: hex6_def)
  from len obtain a b c d e f where ds: "ds = [a, b, c, d, e, f]"
    by (auto simp: length_Suc_conv eval_nat_numeral)
  with all that show thesis by simp
qed

subsection \<open>Facts about the outline loop\<close>

lemma halo_append: "halo p t f c (xs @ ys) = halo p t f c xs @ halo p t f c ys"
  by (simp add: halo_def)

lemma for_each_texts:
  assumes "\<And>x d. body x d = Ok (d\<lparr>texts := texts d @ g x\<rparr>)"
  shows "for_each xs body d = Ok (d\<lparr>texts := texts d @ concat (map g xs)\<rparr>)"
proof (induction xs arbitrary: d)
  case Nil
  show ?case by simp
next
  case (Cons x xs)
  have step: "body x d = Ok (d\<lparr>texts := texts d @ g x\<rparr>)" by (rule assms)
  show ?case by (simp only: for_each.simps step result.case Cons) simp
qed

lemma outline_step_ok:
  assumes "hex_to_rgb oc = Inr c" "draws P f t = None"
  shows "outline_step P p t f oc adj_x adj_y d =
     Ok (d\<lparr>texts := texts d @ halo p t f c (filter (\<lambda>q. q \<noteq> (0, 0)) [(adj_x, adj_y)])\<rparr>)"
  by (simp add: outline_step_def draw_text_def assms halo_def)

lemma halo_row:
  "concat (map (\<lambda>y. halo p t f c (filter (\<lambda>q. q \<noteq> (0, 0)) [(x, y)])) ys) =
   halo p t f c (filter (\<lambda>q. q \<noteq> (0, 0)) (map (Pair x) ys))"
  by (induction ys) (simp_all add: halo_def)

lemma halo_grid:
  "concat (map (\<lambda>x. halo p t f c (filter (\<lambda>q. q \<noteq> (0, 0)) (map (Pair x) ys))) xs) =
   halo p t f c (filter (\<lambda>q. q \<noteq> (0, 0)) (List.product xs ys))"
  by (induction xs) (simp_all add: halo_def)

lemma outline_row:
  assumes "hex_to_rgb oc = Inr c" "draws P f t = None"
  shows "for_each ys (\<lambda>adj_y. outline_step P p t f oc adj_x adj_y) d =
     Ok (d\<lparr>texts := texts d @ halo p t f c (filter (\<lambda>q. q \<noteq> (0, 0)) (map (Pair adj_x) ys))\<rparr>)"
  using for_each_texts[where body = "\<lambda>adj_y. outline_step P p t f oc adj_x adj_y",
      OF outline_step_ok[OF assms], of ys d]
  by (simp only: halo_row)

lemma outline_grid:
  assumes "hex_to_rgb oc = Inr c" "draws P f t = None"
  shows "for_each xs (\<lambda>adj_x. for_each ys (\<lambda>adj_y. outline_step P p t f oc adj_x adj_y)) d =
     Ok (d\<lparr>texts := texts d @ halo p t f c (filter (\<lambda>q. q \<noteq> (0, 0)) (List.product xs ys))\<rparr>)"
  using for_each_texts[where body = "\<lambda>adj_x. for_each ys (\<lambda>adj_y. outline_step P p t f oc adj_x adj_y)",
      OF outline_row[OF assms], of xs d]
  by (simp only: halo_grid)

lemma set_offsets:
  "set (offsets w) = {(dx, dy). - w \<le> dx \<and> dx \<le> w \<and> - w \<le> dy \<and> dy \<le> w \<and> (dx, dy) \<noteq> (0, 0)}"
  by (auto simp: offsets_def)

lemma distinct_offsets: "distinct (offsets w)"
  by (simp add: offsets_def distinct_product)

lemma length_offsets:
  assumes "0 \<le> w"
  shows "int (length (offsets w)) = (2 * w + 1)\<^sup>2 - 1"
proof -
  let ?g = "List.product [- w..w] [- w..w]"
  have d: "distinct ?g" by (simp add: distinct_product)
  have m: "(0, 0) \<in> set ?g" using assms by simp
  have "length (offsets w) = card (set (offsets w))"
    using distinct_offsets by (simp add: distinct_card)
  also have "set (offsets w) = set ?g - {(0, 0)}"
    by (auto simp: offsets_def)
  also have "card (set ?g - {(0, 0)}) = card (set ?g) - 1"
    using m by simp
  also have "card (set ?g) = length ?g"
    using d by (simp add: distinct_card)
  also have "length ?g = nat (2 * w + 1) * nat (2 * w + 1)"
    by simp
  finally have len: "length (offsets w) = nat (2 * w + 1) * nat (2 * w + 1) - 1" .
  define n where "n = nat (2 * w + 1)"
  have n1: "1 \<le> n" using assms unfolding n_def by linarith
  have "1 * 1 \<le> n * n" by (rule mult_le_mono[OF n1 n1])
  then have "int (n * n - 1) = int n * int n - 1" by simp
  moreover have "int n = 2 * w + 1" using assms by (simp add: n_def)
  ultimately show ?thesis using len by (simp add: n_def power2_eq_square)
qed

lemma outline_ok:
  assumes "hex_to_rgb oc = Inr c" "hex_to_rgb fc = Inr k" "draws P f t = None"
  shows "draw_text_with_outline P d p t f fc oc w =
     Ok (d\<lparr>texts := texts d @ halo p t f c (offsets w) @ [\<lparr>pos = p, caption = t, fnt = f, ink = k\<rparr>]\<rparr>)"
  by (simp add: draw_text_with_outline_def py_range_def outline_grid[OF assms(1,3)] assms
      draw_text_def offsets_def)

lemma outline_negative:
  assumes "w < 0"
  shows "draw_text_with_outline P d p t f fc oc w = draw_text_with_outline P d p t f fc oc 0"
  using assms by (simp add: draw_text_with_outline_def py_range_def outline_step_def)

lemma outline_width_zero:
  "draw_text_with_outline P d p t f fc oc 0 =
     (case hex_to_rgb fc of Inl e \<Rightarrow> Raise e d | Inr c \<Rightarrow> draw_text P d p t f c)"
  by (simp add: draw_text_with_outline_def py_range_def outline_step_def)

subsection \<open>Facts about rounding\<close>

lemma pow2_le: "k \<le> l \<Longrightarrow> (2::rat) powi k \<le> 2 powi l"
  by (rule power_int_increasing) simp_all

lemma pow2_less: "k < l \<Longrightarrow> (2::rat) powi k < 2 powi l"
  by (rule power_int_strict_increasing) simp_all

lemma pow2_add: "(2::rat) powi (k + l) = 2 powi k * 2 powi l"
  by (simp add: power_int_add)

lemma pow2_diff: "(2::rat) powi (k - l) = 2 powi k / 2 powi l"
  by (simp add: power_int_diff)

lemma bitlen_rat_bounds:
  assumes "0 < p"
  shows "(2::rat) powi (bitlen p - 1) \<le> of_int p" "(of_int p :: rat) < 2 powi (bitlen p)"
proof -
  from bitlen_bounds[OF assms]
  have b: "2 ^ nat (bitlen p - 1) \<le> p" "p < 2 ^ nat (bitlen p)" by simp_all
  have one: "1 \<le> bitlen p"
    using assms bitlen_eq_zero_iff[of p] bitlen_nonneg[of p] by linarith
  have "(2::rat) powi (bitlen p - 1) = of_int (2 ^ nat (bitlen p - 1))"
    using one by (simp add: power_int_nonneg_exp)
  also have "\<dots> \<le> of_int p" using b(1) by (simp only: of_int_le_iff)
  finally show "(2::rat) powi (bitlen p - 1) \<le> of_int p" .
  have "(of_int p :: rat) < of_int (2 ^ nat (bitlen p))"
    using b(2) by (simp only: of_int_less_iff)
  also have "\<dots> = 2 powi (bitlen p)"
    using one by (simp add: power_int_nonneg_exp)
  finally show "(of_int p :: rat) < 2 powi (bitlen p)" .
qed

lemma ilog2_bounds:
  assumes "0 < x"
  shows "2 powi (ilog2 x) \<le> x" "x < 2 powi (ilog2 x + 1)"
proof -
  obtain p q where pq: "quotient_of x = (p, q)" by (cases "quotient_of x")
  have q: "0 < q" using quotient_of_denom_pos[OF pq] .
  have x: "x = of_int p / of_int q" using quotient_of_div[OF pq] .
  have p: "0 < p" using assms q x by (simp add: zero_less_divide_iff)
  define k where "k = bitlen p - bitlen q"
  note pb = bitlen_rat_bounds[OF p] and qb = bitlen_rat_bounds[OF q]
  have qr: "(0::rat) < of_int q" using q by simp
  have "x * of_int q = of_int p" using x qr by simp
  have up: "x < 2 powi (k + 1)"
  proof -
    have "x * 2 powi (bitlen q - 1) \<le> x * of_int q"
      using qb(1) assms by (simp add: mult_left_mono)
    also have "\<dots> = of_int p" using x qr by simp
    also have "\<dots> < 2 powi (bitlen p)" by (rule pb(2))
    finally have "x < 2 powi (bitlen p) / 2 powi (bitlen q - 1)"
      by (simp add: pos_less_divide_eq)
    then show ?thesis by (simp add: k_def pow2_diff[symmetric] algebra_simps)
  qed
  have lo: "2 powi (k - 1) \<le> x"
  proof -
    have "2 powi (bitlen p - 1) \<le> (of_int p :: rat)" by (rule pb(1))
    also have "\<dots> = x * of_int q" using x qr by simp
    also have "\<dots> \<le> x * 2 powi (bitlen q)"
      using qb(2) assms by (simp add: mult_left_mono)
    finally have "2 powi (bitlen p - 1) / 2 powi (bitlen q) \<le> x"
      by (simp add: pos_divide_le_eq)
    then show ?thesis by (simp add: k_def pow2_diff[symmetric] algebra_simps)
  qed
  have e: "ilog2 x = (if 2 powi k \<le> x then k else k - 1)"
    by (simp add: ilog2_def pq k_def Let_def)
  show "2 powi (ilog2 x) \<le> x" using lo by (simp add: e)
  show "x < 2 powi (ilog2 x + 1)" using up by (auto simp: e not_le)
qed

lemma ilog2_unique:
  assumes "0 < x" "2 powi e \<le> x" "x < 2 powi (e + 1)"
  shows "ilog2 x = e"
proof (rule antisym)
  show "ilog2 x \<le> e"
  proof (rule ccontr)
    assume "\<not> ilog2 x \<le> e"
    then have "e + 1 \<le> ilog2 x" by simp
    then have "(2::rat) powi (e + 1) \<le> 2 powi (ilog2 x)" by (rule pow2_le)
    with ilog2_bounds(1)[OF assms(1)] assms(3) show False by linarith
  qed
  show "e \<le> ilog2 x"
  proof (rule ccontr)
    assume "\<not> e \<le> ilog2 x"
    then have "ilog2 x + 1 \<le> e" by simp
    then have "(2::rat) powi (ilog2 x + 1) \<le> 2 powi e" by (rule pow2_le)
    with ilog2_bounds(2)[OF assms(1)] assms(2) show False by linarith
  qed
qed

lemma ilog2_mono:
  assumes "0 < x" "x \<le> y"
  shows "ilog2 x \<le> ilog2 y"
proof (rule ccontr)
  assume "\<not> ilog2 x \<le> ilog2 y"
  then have "ilog2 y + 1 \<le> ilog2 x" by simp
  then have "(2::rat) powi (ilog2 y + 1) \<le> 2 powi (ilog2 x)" by (rule pow2_le)
  moreover have "0 < y" using assms by simp
  ultimately show False
    using ilog2_bounds(1)[OF assms(1)] ilog2_bounds(2)[of y] assms(2) by linarith
qed

lemma round_half_even_int: "round_half_even (of_int n) = n"
  by (simp add: round_half_even_def)

lemma round_half_even_floor:
  "\<lfloor>q\<rfloor> \<le> round_half_even q" "round_half_even q \<le> \<lfloor>q\<rfloor> + 1"
  by (auto simp: round_half_even_def Let_def)

lemma round_half_even_mono:
  assumes "q \<le> r"
  shows "round_half_even q \<le> round_half_even r"
proof (cases "\<lfloor>q\<rfloor> = \<lfloor>r\<rfloor>")
  case True
  then show ?thesis using assms
    by (auto simp: round_half_even_def Let_def)
next
  case False
  moreover have "\<lfloor>q\<rfloor> \<le> \<lfloor>r\<rfloor>" using assms by (rule floor_mono)
  ultimately have "\<lfloor>q\<rfloor> + 1 \<le> \<lfloor>r\<rfloor>" by simp
  with round_half_even_floor(2)[of q] round_half_even_floor(1)[of r]
  show ?thesis by linarith
qed

lemma fl_zero: "fl 0 = 0"
  by (simp add: fl_def)

lemma fl_minus: "fl (- x) = - fl x"
  by (simp add: fl_def Let_def)

lemma fl_pos_eq:
  assumes "0 < x"
  shows "fl x = of_int (round_half_even (x / 2 powi (ulp_exp x))) * 2 powi (ulp_exp x)"
  using assms by (simp add: fl_def Let_def)

lemma round_half_even_nonneg: "0 \<le> q \<Longrightarrow> 0 \<le> round_half_even q"
  using round_half_even_floor(1)[of q] by (simp add: order_trans[of 0 "\<lfloor>q\<rfloor>"])

lemma fl_pos_nonneg:
  assumes "0 < x"
  shows "0 \<le> fl x"
proof -
  have "0 \<le> x / 2 powi (ulp_exp x)" using assms by simp
  then have "0 \<le> round_half_even (x / 2 powi (ulp_exp x))" by (rule round_half_even_nonneg)
  then show ?thesis by (simp add: fl_pos_eq[OF assms])
qed

lemma fl_nonneg: "0 \<le> x \<Longrightarrow> 0 \<le> fl x"
  using fl_pos_nonneg[of x] by (cases "x = 0") (simp_all add: fl_zero)

lemma fl_nonpos: "x \<le> 0 \<Longrightarrow> fl x \<le> 0"
  using fl_nonneg[of "- x"] by (simp add: fl_minus)

lemma pow2_53: "(2::rat) powi 53 * 2 powi (k - 52) = 2 powi (k + 1)"
proof -
  have "53 + (k - 52) = k + 1" by simp
  then show ?thesis by (simp only: pow2_add[symmetric])
qed

lemma pow2_52: "(2::rat) powi 52 * 2 powi (k - 52) = 2 powi k"
proof -
  have "52 + (k - 52) = k" by simp
  then show ?thesis by (simp only: pow2_add[symmetric])
qed

lemma fl_mono_pos:
  assumes "0 < x" "x \<le> y"
  shows "fl x \<le> fl y"
proof -
  have y: "0 < y" using assms by simp
  define ex where "ex = max (ilog2 x) (- 1022)"
  define ey where "ey = max (ilog2 y) (- 1022)"
  have le: "ex \<le> ey" using ilog2_mono[OF assms] by (simp add: ex_def ey_def)
  have fx: "fl x = of_int (round_half_even (x / 2 powi (ex - 52))) * 2 powi (ex - 52)"
    using fl_pos_eq[OF assms(1)] by (simp add: ulp_exp_def ex_def)
  have fy: "fl y = of_int (round_half_even (y / 2 powi (ey - 52))) * 2 powi (ey - 52)"
    using fl_pos_eq[OF y] by (simp add: ulp_exp_def ey_def)
  show ?thesis
  proof (cases "ex = ey")
    case True
    have "x / 2 powi (ey - 52) \<le> y / 2 powi (ey - 52)"
      using assms(2) by (simp add: divide_right_mono)
    then have "round_half_even (x / 2 powi (ey - 52)) \<le> round_half_even (y / 2 powi (ey - 52))"
      by (rule round_half_even_mono)
    then have "(of_int (round_half_even (x / 2 powi (ey - 52))) :: rat)
        \<le> of_int (round_half_even (y / 2 powi (ey - 52)))"
      by (simp only: of_int_le_iff)
    then show ?thesis
      by (simp add: fx fy True mult_right_mono)
  next
    case False
    with le have lt: "ex < ey" by simp
    then have eyl: "ey = ilog2 y" by (auto simp: ex_def ey_def)
    have "x < 2 powi (ilog2 x + 1)" by (rule ilog2_bounds(2)[OF assms(1)])
    also have "\<dots> \<le> 2 powi (ex + 1)" by (rule pow2_le) (simp add: ex_def)
    finally have xlt: "x < 2 powi (ex + 1)" .
    have "x / 2 powi (ex - 52) \<le> 2 powi (ex + 1) / 2 powi (ex - 52)"
      using xlt by (simp add: divide_right_mono)
    also have "\<dots> = 2 powi 53" by (simp add: pow2_diff[symmetric])
    also have "\<dots> = of_int (2 ^ 53)" by simp
    finally have "round_half_even (x / 2 powi (ex - 52)) \<le> round_half_even (of_int (2 ^ 53))"
      by (rule round_half_even_mono)
    then have "round_half_even (x / 2 powi (ex - 52)) \<le> 2 ^ 53"
      by (simp only: round_half_even_int)
    then have "(of_int (round_half_even (x / 2 powi (ex - 52))) :: rat) \<le> of_int (2 ^ 53)"
      by (simp only: of_int_le_iff)
    then have "fl x \<le> of_int (2 ^ 53) * 2 powi (ex - 52)"
      by (simp only: fx mult_right_mono zero_le_power_int zero_le_numeral)
    also have "\<dots> = 2 powi 53 * 2 powi (ex - 52)" by simp
    also have "\<dots> = 2 powi (ex + 1)" by (rule pow2_53)
    also have "\<dots> \<le> 2 powi ey" by (rule pow2_le) (use lt in simp)
    finally have a: "fl x \<le> 2 powi ey" .
    have "2 powi ey \<le> y" using ilog2_bounds(1)[OF y] by (simp add: eyl)
    then have "2 powi ey / 2 powi (ey - 52) \<le> y / 2 powi (ey - 52)"
      by (simp add: divide_right_mono)
    moreover have "2 powi ey / 2 powi (ey - 52) = (of_int (2 ^ 52) :: rat)"
      by (simp add: pow2_diff[symmetric])
    ultimately have "(of_int (2 ^ 52) :: rat) \<le> y / 2 powi (ey - 52)" by simp
    then have "round_half_even (of_int (2 ^ 52)) \<le> round_half_even (y / 2 powi (ey - 52))"
      by (rule round_half_even_mono)
    then have "2 ^ 52 \<le> round_half_even (y / 2 powi (ey - 52))"
      by (simp only: round_half_even_int)
    then have "(of_int (2 ^ 52) :: rat) \<le> of_int (round_half_even (y / 2 powi (ey - 52)))"
      by (simp only: of_int_le_iff)
    then have "of_int (2 ^ 52) * 2 powi (ey - 52) \<le> fl y"
      by (simp only: fy mult_right_mono zero_le_power_int zero_le_numeral)
    moreover have "of_int (2 ^ 52) * 2 powi (ey - 52) = (2::rat) powi ey"
    proof -
      have "of_int (2 ^ 52) * 2 powi (ey - 52) = (2::rat) powi 52 * 2 powi (ey - 52)" by simp
      also have "\<dots> = 2 powi ey" by (rule pow2_52)
      finally show ?thesis .
    qed
    ultimately have "2 powi ey \<le> fl y" by simp
    with a show ?thesis by simp
  qed
qed

lemma fl_mono:
  assumes "x \<le> y"
  shows "fl x \<le> fl y"
proof -
  consider "0 < x" | "x \<le> 0" "0 \<le> y" | "y < 0" by linarith
  then show ?thesis
  proof cases
    case 1
    then show ?thesis using assms by (rule fl_mono_pos)
  next
    case 2
    then show ?thesis using fl_nonpos[of x] fl_nonneg[of y] by simp
  next
    case 3
    then have "0 < - y" "- y \<le> - x" using assms by simp_all
    then have "fl (- y) \<le> fl (- x)" by (rule fl_mono_pos)
    then show ?thesis by (simp add: fl_minus)
  qed
qed

lemma fl_of_int_pos:
  assumes "0 < n" "n < 2 ^ 52"
  shows "fl (of_int n) = of_int n"
proof -
  have x: "(0::rat) < of_int n" using assms by simp
  define e where "e = ilog2 (of_int n)"
  have lo: "0 \<le> e"
  proof (rule ccontr)
    assume "\<not> 0 \<le> e"
    then have "e + 1 \<le> 0" by simp
    then have "(2::rat) powi (e + 1) \<le> 2 powi 0" by (rule pow2_le)
    with ilog2_bounds(2)[OF x] have "(of_int n :: rat) < 1" by (simp add: e_def)
    with assms(1) show False by simp
  qed
  have hi: "e < 52"
  proof (rule ccontr)
    assume "\<not> e < 52"
    then have "52 \<le> e" by simp
    then have "(2::rat) powi 52 \<le> 2 powi e" by (rule pow2_le)
    with ilog2_bounds(1)[OF x] have "(2::rat) ^ 52 \<le> of_int n" by (simp add: e_def)
    then have "(of_int (2 ^ 52) :: rat) \<le> of_int n" by simp
    then have "2 ^ 52 \<le> n" by (simp only: of_int_le_iff)
    with assms(2) show False by simp
  qed
  have u: "ulp_exp (of_int n) = e - 52" using lo by (simp add: ulp_exp_def e_def)
  have "(of_int n :: rat) / 2 powi (e - 52) = of_int n * 2 powi (52 - e)"
    by (simp add: power_int_diff)
  also have "\<dots> = of_int n * 2 ^ nat (52 - e)"
    using hi by (simp add: power_int_nonneg_exp)
  also have "\<dots> = of_int (n * 2 ^ nat (52 - e))" by simp
  finally have q: "(of_int n :: rat) / 2 powi (e - 52) = of_int (n * 2 ^ nat (52 - e))" .
  have "fl (of_int n) = of_int (n * 2 ^ nat (52 - e)) * 2 powi (e - 52)"
    by (simp only: fl_pos_eq[OF x] u q round_half_even_int)
  also have "\<dots> = (of_int n / 2 powi (e - 52)) * 2 powi (e - 52)"
    by (simp only: q)
  also have "\<dots> = of_int n" by simp
  finally show ?thesis .
qed

lemma fl_of_int:
  assumes "\<bar>n\<bar> < 2 ^ 52"
  shows "fl (of_int n) = of_int n"
proof -
  consider "0 < n" | "n = 0" | "n < 0" by linarith
  then show ?thesis
  proof cases
    case 1
    then show ?thesis using assms by (simp add: fl_of_int_pos)
  next
    case 2
    then show ?thesis by (simp add: fl_zero)
  next
    case 3
    then have "fl (of_int (- n)) = of_int (- n)" using assms by (intro fl_of_int_pos) simp_all
    then show ?thesis by (simp add: fl_minus)
  qed
qed

subsection \<open>Facts about one channel of the gradient\<close>

lemma float_of_int_small: "\<bar>a\<bar> < 2 ^ 52 \<Longrightarrow> float_of_int a = of_int a"
  by (simp add: float_of_int_def fl_of_int)

lemma py_int_of_float_of_int: "py_int_of_float (of_int n) = n"
  by (simp add: py_int_of_float_def)

lemma py_int_of_float_mono:
  assumes "x \<le> y"
  shows "py_int_of_float x \<le> py_int_of_float y"
proof -
  consider "0 \<le> x" | "x < 0" "0 \<le> y" | "y < 0" by linarith
  then show ?thesis
  proof cases
    case 1
    then show ?thesis using assms by (simp add: py_int_of_float_def floor_mono)
  next
    case 2
    have "\<lceil>x\<rceil> \<le> 0" using 2(1) by (simp add: ceiling_le_iff)
    moreover have "0 \<le> \<lfloor>y\<rfloor>" using 2(2) by simp
    ultimately have "\<lceil>x\<rceil> \<le> \<lfloor>y\<rfloor>" by linarith
    then show ?thesis using 2 by (simp add: py_int_of_float_def)
  next
    case 3
    then show ?thesis using assms by (simp add: py_int_of_float_def ceiling_mono)
  qed
qed

lemma py_truediv_zero: "py_truediv 0 h = 0"
  by (simp add: py_truediv_def fl_zero)

lemma py_truediv_mono:
  assumes "0 < h" "y1 \<le> y2"
  shows "py_truediv y1 h \<le> py_truediv y2 h"
  unfolding py_truediv_def using assms by (intro fl_mono divide_right_mono) simp_all

lemma py_truediv_unit:
  assumes "0 < h" "0 \<le> y" "y < h"
  shows "0 \<le> py_truediv y h" "py_truediv y h \<le> 1"
proof -
  have "(0::rat) \<le> of_int y / of_int h" using assms by simp
  then show "0 \<le> py_truediv y h" unfolding py_truediv_def by (rule fl_nonneg)
  have "(of_int y :: rat) / of_int h \<le> of_int 1" using assms by simp
  then have "fl (of_int y / of_int h) \<le> fl (of_int 1)" by (rule fl_mono)
  also have "fl (of_int 1) = of_int 1" by (rule fl_of_int) simp
  finally show "py_truediv y h \<le> 1" by (simp add: py_truediv_def)
qed

lemma channel_eq:
  assumes "\<bar>c1\<bar> \<le> 255" "\<bar>c2\<bar> \<le> 255"
  shows "channel c1 c2 r = py_int_of_float (fl (of_int c1 + fl (of_int (c2 - c1) * r)))"
proof -
  have "float_of_int c1 = of_int c1" using assms by (intro float_of_int_small) simp
  moreover have "float_of_int (c2 - c1) = of_int (c2 - c1)"
    using assms by (intro float_of_int_small) simp
  ultimately show ?thesis
    by (simp only: channel_def int_plus_float_def int_times_float_def)
qed

lemma channel_mono_up:
  assumes "\<bar>c1\<bar> \<le> 255" "\<bar>c2\<bar> \<le> 255" "c1 \<le> c2" "r \<le> r'"
  shows "channel c1 c2 r \<le> channel c1 c2 r'"
proof -
  have "(0::rat) \<le> of_int (c2 - c1)" using assms(3) by simp
  then have "of_int (c2 - c1) * r \<le> of_int (c2 - c1) * r'"
    using assms(4) by (rule mult_left_mono[rotated])
  then have "fl (of_int (c2 - c1) * r) \<le> fl (of_int (c2 - c1) * r')" by (rule fl_mono)
  then have "of_int c1 + fl (of_int (c2 - c1) * r) \<le> of_int c1 + fl (of_int (c2 - c1) * r')"
    by simp
  then have "fl (of_int c1 + fl (of_int (c2 - c1) * r))
      \<le> fl (of_int c1 + fl (of_int (c2 - c1) * r'))" by (rule fl_mono)
  then show ?thesis
    by (simp only: channel_eq[OF assms(1,2)] py_int_of_float_mono)
qed

lemma channel_mono_down:
  assumes "\<bar>c1\<bar> \<le> 255" "\<bar>c2\<bar> \<le> 255" "c2 \<le> c1" "r \<le> r'"
  shows "channel c1 c2 r' \<le> channel c1 c2 r"
proof -
  have "(of_int (c2 - c1) :: rat) \<le> 0" using assms(3) by simp
  then have "of_int (c2 - c1) * r' \<le> of_int (c2 - c1) * r"
    using assms(4) by (rule mult_left_mono_neg[rotated])
  then have "fl (of_int (c2 - c1) * r') \<le> fl (of_int (c2 - c1) * r)" by (rule fl_mono)
  then have "of_int c1 + fl (of_int (c2 - c1) * r') \<le> of_int c1 + fl (of_int (c2 - c1) * r)"
    by simp
  then have "fl (of_int c1 + fl (of_int (c2 - c1) * r'))
      \<le> fl (of_int c1 + fl (of_int (c2 - c1) * r))" by (rule fl_mono)
  then show ?thesis
    by (simp only: channel_eq[OF assms(1,2)] py_int_of_float_mono)
qed

lemma channel_at_zero:
  assumes "\<bar>c1\<bar> \<le> 255" "\<bar>c2\<bar> \<le> 255"
  shows "channel c1 c2 0 = c1"
proof -
  have "fl (of_int c1) = of_int c1" using assms by (intro fl_of_int) simp
  then show ?thesis
    by (simp add: channel_eq[OF assms] fl_zero py_int_of_float_of_int)
qed

lemma channel_at_one:
  assumes "\<bar>c1\<bar> \<le> 255" "\<bar>c2\<bar> \<le> 255"
  shows "channel c1 c2 1 = c2"
proof -
  have "fl (of_int (c2 - c1)) = of_int (c2 - c1)" using assms by (intro fl_of_int) simp
  moreover have "of_int c1 + (of_int (c2 - c1) :: rat) = of_int c2" by simp
  moreover have "fl (of_int c2) = of_int c2" using assms by (intro fl_of_int) simp
  ultimately show ?thesis
    by (simp add: channel_eq[OF assms] py_int_of_float_of_int)
qed

lemma channel_between:
  assumes "\<bar>c1\<bar> \<le> 255" "\<bar>c2\<bar> \<le> 255" "0 \<le> r" "r \<le> 1"
  shows "min c1 c2 \<le> channel c1 c2 r" "channel c1 c2 r \<le> max c1 c2"
proof -
  have "min c1 c2 \<le> channel c1 c2 r \<and> channel c1 c2 r \<le> max c1 c2"
  proof (cases "c1 \<le> c2")
    case True
    from channel_mono_up[OF assms(1,2) True assms(3)] channel_mono_up[OF assms(1,2) True assms(4)]
    show ?thesis using True by (simp add: channel_at_zero[OF assms(1,2)] channel_at_one[OF assms(1,2)])
  next
    case False
    then have le: "c2 \<le> c1" by simp
    from channel_mono_down[OF assms(1,2) le assms(3)] channel_mono_down[OF assms(1,2) le assms(4)]
    show ?thesis using le by (simp add: channel_at_zero[OF assms(1,2)] channel_at_one[OF assms(1,2)])
  qed
  then show "min c1 c2 \<le> channel c1 c2 r" "channel c1 c2 r \<le> max c1 c2" by simp_all
qed

subsection \<open>Facts about the gradient loop\<close>

lemma length_paint_row: "length (paint_row r lo hi c) = length r"
  by (simp add: paint_row_def)

lemma nth_paint_row:
  "i < length r \<Longrightarrow> paint_row r lo hi c ! i = (if lo \<le> int i \<and> int i \<le> hi then c else r ! i)"
  by (simp add: paint_row_def nth_enumerate_eq)

lemma paint_row_full:
  assumes "lo \<le> 0" "int (length r) \<le> hi + 1"
  shows "paint_row r lo hi c = replicate (length r) c"
proof (rule nth_equalityI)
  show "length (paint_row r lo hi c) = length (replicate (length r) c)"
    by (simp add: length_paint_row)
next
  fix i assume "i < length (paint_row r lo hi c)"
  then have i: "i < length r" by (simp add: length_paint_row)
  then show "paint_row r lo hi c ! i = replicate (length r) c ! i"
    using assms by (simp add: nth_paint_row)
qed

lemma texts_draw_hline: "texts (draw_hline d x0 x1 y c) = texts d"
  by (simp add: draw_hline_def)

lemma length_rows_draw_hline: "length (rows (draw_hline d x0 x1 y c)) = length (rows d)"
  by (simp add: draw_hline_def)

lemma widths_draw_hline:
  assumes "list_all (\<lambda>r. int (length r) = w) (rows d)"
  shows "list_all (\<lambda>r. int (length r) = w) (rows (draw_hline d x0 x1 y c))"
proof (cases "0 \<le> y \<and> y < int (length (rows d))")
  case True
  then have n: "nat y < length (rows d)" by linarith
  have "int (length (rows d ! nat y)) = w"
    using assms n by (simp add: list_all_length)
  then have "int (length (paint_row (rows d ! nat y) (min x0 x1) (max x0 x1) (clip_rgb c))) = w"
    by (simp add: length_paint_row)
  with assms show ?thesis
    using True set_update_subset_insert[of "rows d" "nat y"]
    by (auto simp: draw_hline_def list_all_iff)
next
  case False
  then have "draw_hline d x0 x1 y c = d" by (auto simp: draw_hline_def)
  with assms show ?thesis by simp
qed

lemma row_draw_hline:
  assumes "i < length (rows d)" "0 < w" "list_all (\<lambda>r. int (length r) = w) (rows d)"
  shows "rows (draw_hline d 0 w y c) ! i =
           (if int i = y then replicate (nat w) (clip_rgb c) else rows d ! i)"
proof (cases "int i = y")
  case True
  have len: "int (length (rows d ! i)) = w"
    using assms(1,3) by (simp add: list_all_length)
  have "paint_row (rows d ! i) 0 w (clip_rgb c) = replicate (length (rows d ! i)) (clip_rgb c)"
    by (rule paint_row_full) (simp_all add: len)
  also have "length (rows d ! i) = nat w" using len by simp
  finally have p: "paint_row (rows d ! i) 0 w (clip_rgb c) = replicate (nat w) (clip_rgb c)" .
  have y: "0 \<le> y \<and> y < int (length (rows d))" "nat y = i" using True assms(1) by auto
  show ?thesis
    using assms(1,2) y p True by (simp add: draw_hline_def)
next
  case False
  then have "nat y \<noteq> i \<or> \<not> (0 \<le> y)" by auto
  then show ?thesis using False by (auto simp: draw_hline_def)
qed

lemma gradient_loop:
  assumes "list_all (\<lambda>r. int (length r) = w) (rows d)" "0 < w"
  shows "\<exists>d'. for_each ys (gradient_row T B w h) d = Ok d'
      \<and> texts d' = texts d
      \<and> length (rows d') = length (rows d)
      \<and> list_all (\<lambda>r. int (length r) = w) (rows d')
      \<and> (\<forall>i < length (rows d). rows d' ! i =
            (if int i \<in> set ys then replicate (nat w) (clip_rgb (row_color T B (int i) h))
             else rows d ! i))"
  using assms(1)
proof (induction ys arbitrary: d)
  case Nil
  then show ?case by simp
next
  case (Cons y ys)
  define d1 where "d1 = draw_hline d 0 w y (row_color T B y h)"
  have w1: "list_all (\<lambda>r. int (length r) = w) (rows d1)"
    unfolding d1_def using Cons.prems by (rule widths_draw_hline)
  have l1: "length (rows d1) = length (rows d)" by (simp add: d1_def length_rows_draw_hline)
  have t1: "texts d1 = texts d" by (simp add: d1_def texts_draw_hline)
  from Cons.IH[OF w1] obtain d' where run: "for_each ys (gradient_row T B w h) d1 = Ok d'"
    and t: "texts d' = texts d1" and l: "length (rows d') = length (rows d1)"
    and ws: "list_all (\<lambda>r. int (length r) = w) (rows d')"
    and r: "\<forall>i < length (rows d1). rows d' ! i =
            (if int i \<in> set ys then replicate (nat w) (clip_rgb (row_color T B (int i) h))
             else rows d1 ! i)"
    by blast
  have step: "for_each (y # ys) (gradient_row T B w h) d = Ok d'"
    by (simp add: gradient_row_def d1_def[symmetric] run)
  have "rows d' ! i =
            (if int i \<in> set (y # ys) then replicate (nat w) (clip_rgb (row_color T B (int i) h))
             else rows d ! i)" if i: "i < length (rows d)" for i
  proof -
    have a: "rows d1 ! i = (if int i = y then replicate (nat w) (clip_rgb (row_color T B y h))
                            else rows d ! i)"
      unfolding d1_def using i assms(2) Cons.prems by (rule row_draw_hline)
    from r i l1 have b: "rows d' ! i =
            (if int i \<in> set ys then replicate (nat w) (clip_rgb (row_color T B (int i) h))
             else rows d1 ! i)" by simp
    show ?thesis unfolding b a by auto
  qed
  with step t l ws show ?case by (simp add: t1 l1)
qed

subsection \<open>Facts about the whole gradient\<close>

lemma valid_color_parses:
  assumes "valid_color s"
  shows "\<exists>r g b. hex_to_rgb s = Inr (r, g, b) \<and> byte r \<and> byte g \<and> byte b"
proof -
  from assms obtain ds where ds: "hex6 ds" and s: "s = ds \<or> s = CHR ''#'' # ds"
    by (auto simp: valid_color_def split: list.splits)
  from ds obtain a b c d e f where l: "ds = [a, b, c, d, e, f]"
    and h: "is_hexdigit a" "is_hexdigit b" "is_hexdigit c"
      "is_hexdigit d" "is_hexdigit e" "is_hexdigit f"
    by (rule hex6_cases)
  have "hex_to_rgb s = hex_to_rgb ds" using s by (auto simp: hex_to_rgb_hash)
  then have "hex_to_rgb s = Inr (byte_of a b, byte_of c d, byte_of e f)"
    by (simp add: l hex_to_rgb_digits h)
  then show ?thesis
    using byte_of_range[OF h(1,2)] byte_of_range[OF h(3,4)] byte_of_range[OF h(5,6)]
    by (simp add: byte_def)
qed

lemma clip_rgb_bytes: "byte r \<Longrightarrow> byte g \<Longrightarrow> byte b \<Longrightarrow> clip_rgb (r, g, b) = (r, g, b)"
  by (simp add: clip_rgb_def clip8_def byte_def)

lemma channel_byte:
  assumes "byte c1" "byte c2" "0 < h" "0 \<le> y" "y < h"
  shows "byte (channel c1 c2 (py_truediv y h))"
proof -
  have a: "\<bar>c1\<bar> \<le> 255" "\<bar>c2\<bar> \<le> 255" using assms(1,2) by (simp_all add: byte_def)
  note u = py_truediv_unit[OF assms(3,4,5)]
  from channel_between[OF a u] assms(1,2) show ?thesis unfolding byte_def by linarith
qed

lemma row_color_channels:
  "row_color (r1, g1, b1) (r2, g2, b2) y h =
     (channel r1 r2 (py_truediv y h), channel g1 g2 (py_truediv y h),
      channel b1 b2 (py_truediv y h))"
  by (simp add: row_color_def Let_def)

lemma set_py_range: "set (py_range a b) = {a..<b}"
  by (auto simp: py_range_def)

lemma gradient_runs:
  assumes "hex_to_rgb ct = Inr T" "hex_to_rgb cb = Inr B"
  shows "create_gradient_background d w h ct cb = for_each (py_range 0 h) (gradient_row T B w h) d"
  by (simp add: create_gradient_background_def assms)

lemma sized_iff: "sized d w h \<longleftrightarrow> int (length (rows d)) = h \<and> list_all (\<lambda>r. int (length r) = w) (rows d)"
  by (simp add: sized_def)

lemma gradient_rows:
  assumes sz: "sized d w h" and w: "0 < w"
    and top: "hex_to_rgb ct = Inr (r1, g1, b1)" "byte r1" "byte g1" "byte b1"
    and bot: "hex_to_rgb cb = Inr (r2, g2, b2)" "byte r2" "byte g2" "byte b2"
  shows "\<exists>d'. create_gradient_background d w h ct cb = Ok d'
      \<and> texts d' = texts d
      \<and> sized d' w h
      \<and> (\<forall>y. 0 \<le> y \<and> y < h \<longrightarrow> rows d' ! nat y = replicate (nat w)
            (channel r1 r2 (py_truediv y h), channel g1 g2 (py_truediv y h),
             channel b1 b2 (py_truediv y h)))"
proof -
  from sz have len: "int (length (rows d)) = h"
    and ws: "list_all (\<lambda>r. int (length r) = w) (rows d)" by (simp_all add: sized_def)
  from gradient_loop[OF ws w, of "py_range 0 h" "(r1, g1, b1)" "(r2, g2, b2)" h]
  obtain d' where run: "for_each (py_range 0 h) (gradient_row (r1, g1, b1) (r2, g2, b2) w h) d = Ok d'"
    and t: "texts d' = texts d" and l: "length (rows d') = length (rows d)"
    and ws': "list_all (\<lambda>r. int (length r) = w) (rows d')"
    and r: "\<forall>i < length (rows d). rows d' ! i =
            (if int i \<in> set (py_range 0 h)
             then replicate (nat w) (clip_rgb (row_color (r1, g1, b1) (r2, g2, b2) (int i) h))
             else rows d ! i)"
    by blast
  have "rows d' ! nat y = replicate (nat w)
            (channel r1 r2 (py_truediv y h), channel g1 g2 (py_truediv y h),
             channel b1 b2 (py_truediv y h))" if y: "0 \<le> y" "y < h" for y
  proof -
    have h: "0 < h" using y by simp
    have i: "nat y < length (rows d)" using y len by linarith
    have m: "int (nat y) \<in> set (py_range 0 h)" using y by (simp add: set_py_range)
    have c: "clip_rgb (row_color (r1, g1, b1) (r2, g2, b2) y h) =
        (channel r1 r2 (py_truediv y h), channel g1 g2 (py_truediv y h),
         channel b1 b2 (py_truediv y h))"
      unfolding row_color_channels
      by (intro clip_rgb_bytes channel_byte top bot h y)
    from r i m have "rows d' ! nat y =
        replicate (nat w) (clip_rgb (row_color (r1, g1, b1) (r2, g2, b2) (int (nat y)) h))"
      by simp
    then show ?thesis using y(1) c by simp
  qed
  moreover have "sized d' w h" using l len ws' by (simp add: sized_def)
  ultimately show ?thesis
    using run t by (simp add: gradient_runs[OF top(1) bot(1)])
qed

lemma draw_hline_outside:
  assumes "i < length (rows d)"
  shows "length (rows (draw_hline d x0 x1 y c) ! i) = length (rows d ! i)"
    and "max x0 x1 < int x \<Longrightarrow> x < length (rows d ! i) \<Longrightarrow>
           rows (draw_hline d x0 x1 y c) ! i ! x = rows d ! i ! x"
proof -
  show "length (rows (draw_hline d x0 x1 y c) ! i) = length (rows d ! i)"
    using assms by (auto simp: draw_hline_def length_paint_row nth_list_update)
  show "rows (draw_hline d x0 x1 y c) ! i ! x = rows d ! i ! x"
    if "max x0 x1 < int x" "x < length (rows d ! i)"
    using assms that by (auto simp: draw_hline_def nth_paint_row nth_list_update)
qed

lemma gradient_loop_any:
  "\<exists>d'. for_each ys (gradient_row T B w h) d = Ok d'
      \<and> texts d' = texts d
      \<and> length (rows d') = length (rows d)
      \<and> (\<forall>i < length (rows d). length (rows d' ! i) = length (rows d ! i)
            \<and> (\<forall>x. max 0 w < int x \<and> x < length (rows d ! i) \<longrightarrow>
                  rows d' ! i ! x = rows d ! i ! x))"
proof (induction ys arbitrary: d)
  case Nil
  show ?case by simp
next
  case (Cons y ys)
  define d1 where "d1 = draw_hline d 0 w y (row_color T B y h)"
  have l1: "length (rows d1) = length (rows d)" by (simp add: d1_def length_rows_draw_hline)
  have t1: "texts d1 = texts d" by (simp add: d1_def texts_draw_hline)
  from Cons.IH[of d1] obtain d' where run: "for_each ys (gradient_row T B w h) d1 = Ok d'"
    and t: "texts d' = texts d1" and l: "length (rows d') = length (rows d1)"
    and r: "\<forall>i < length (rows d1). length (rows d' ! i) = length (rows d1 ! i)
            \<and> (\<forall>x. max 0 w < int x \<and> x < length (rows d1 ! i) \<longrightarrow>
                  rows d' ! i ! x = rows d1 ! i ! x)"
    by blast
  have step: "for_each (y # ys) (gradient_row T B w h) d = Ok d'"
    by (simp add: gradient_row_def d1_def[symmetric] run)
  have "length (rows d' ! i) = length (rows d ! i)
            \<and> (\<forall>x. max 0 w < int x \<and> x < length (rows d ! i) \<longrightarrow>
                  rows d' ! i ! x = rows d ! i ! x)" if i: "i < length (rows d)" for i
  proof -
    note o = draw_hline_outside[OF i, where ?x0.0 = 0 and ?x1.0 = w and y = y and c = "row_color T B y h", folded d1_def]
    from r i l1 have a: "length (rows d' ! i) = length (rows d1 ! i)"
      and b: "\<And>x. max 0 w < int x \<Longrightarrow> x < length (rows d1 ! i) \<Longrightarrow>
                  rows d' ! i ! x = rows d1 ! i ! x" by simp_all
    show ?thesis using a b o by simp
  qed
  with step t l show ?case by (simp add: t1 l1)
qed

lemma gradient_empty_range:
  assumes "hex_to_rgb ct = Inr T" "hex_to_rgb cb = Inr B" "h \<le> 0"
  shows "create_gradient_background d w h ct cb = Ok d"
  using assms by (simp add: create_gradient_background_def py_range_def)

lemma valid_bytes:
  assumes "valid_color s" "hex_to_rgb s = Inr (r, g, b)"
  shows "byte r" "byte g" "byte b"
  using valid_color_parses[OF assms(1)] assms(2) by auto

lemma byte_abs: "byte v \<Longrightarrow> \<bar>v\<bar> \<le> 255"
  by (simp add: byte_def)

lemma hex_black: "hex_to_rgb ''#000000'' = Inr (0, 0, 0)"
  by (simp add: hex_to_rgb_hash hex_to_rgb_digits is_hexdigit_def hexval_def byte_of_def)

lemma hex_grey: "hex_to_rgb ''#5A5A5A'' = Inr (90, 90, 90)"
  by (simp add: hex_to_rgb_hash hex_to_rgb_digits is_hexdigit_def hexval_def byte_of_def)

lemma valid_black: "valid_color ''#000000''"
  by (simp add: valid_color_def hex6_def is_hexdigit_def hexval_def)

lemma valid_grey: "valid_color ''#5A5A5A''"
  by (simp add: valid_color_def hex6_def is_hexdigit_def hexval_def)

lemma grey_row_7_of_10: "channel 0 90 (py_truediv 7 10) = 62"
  by code_simp

lemma grey_row_1_of_2: "channel 0 90 (py_truediv 1 2) = 45"
  by code_simp

lemma grey_row_0: "channel 0 90 (py_truediv 0 h) = 0"
  by (simp add: py_truediv_zero channel_at_zero)

lemma hex_light: "hex_to_rgb ''#5BA3FF'' = Inr (91, 163, 255)"
  by (simp add: hex_to_rgb_hash hex_to_rgb_digits is_hexdigit_def hexval_def byte_of_def)

lemma hex_dark: "hex_to_rgb ''#1E5BB8'' = Inr (30, 91, 184)"
  by (simp add: hex_to_rgb_hash hex_to_rgb_digits is_hexdigit_def hexval_def byte_of_def)

lemma valid_light: "valid_color ''#5BA3FF''"
  by (simp add: valid_color_def hex6_def is_hexdigit_def hexval_def)

lemma valid_dark: "valid_color ''#1E5BB8''"
  by (simp add: valid_color_def hex6_def is_hexdigit_def hexval_def)

subsection \<open>Facts about the font lookup\<close>

lemma font_loop_result:
  "\<exists>f. font_loop P sz os = Inr f
      \<and> (case List.find (usable P sz) (List.map_filter (\<lambda>c. c) os) of
            None \<Rightarrow> f = DefaultFont
          | Some p \<Rightarrow> truetype P p sz = Inr f)"
proof (induction os)
  case Nil
  show ?case by (simp add: load_default_def List.map_filter_simps)
next
  case (Cons c os)
  show ?case
  proof (cases c)
    case None
    with Cons show ?thesis by (simp add: List.map_filter_simps)
  next
    case (Some p)
    show ?thesis
    proof (cases "usable P sz p")
      case True
      then obtain f where "truetype P p sz = Inr f" "p \<noteq> []" "path_exists P p"
        by (auto simp: usable_def split: sum.splits)
      with True Some show ?thesis by (simp add: List.map_filter_simps)
    next
      case False
      then have "font_loop P sz (c # os) = font_loop P sz os"
        using Some by (auto simp: usable_def split: sum.splits)
      with False Some Cons show ?thesis by (simp add: List.map_filter_simps)
    qed
  qed
qed

lemma find_none_absent:
  assumes "\<forall>p \<in> set ps. \<not> path_exists P p"
  shows "List.find (usable P sz) ps = None"
  using assms by (auto simp: find_None_iff usable_def)

lemma candidates_eq:
  "candidates bold =
     [if bold then ''/system/fonts/Roboto-Bold.ttf'' else ''/system/fonts/Roboto-Regular.ttf'',
      if bold then ''/system/fonts/DroidSans-Bold.ttf'' else ''/system/fonts/DroidSans.ttf'',
      if bold then ''/data/data/com.termux/files/usr/share/fonts/TTF/DejaVuSans-Bold.ttf''
      else ''/data/data/com.termux/files/usr/share/fonts/TTF/DejaVuSans.ttf'']"
  by (simp add: candidates_def font_options_def List.map_filter_simps)

subsection \<open>Facts about one label\<close>

lemma for_each_keeps:
  assumes "\<And>x d. body x d = Ok d \<or> (\<exists>e. body x d = Raise e d)"
  shows "for_each xs body d = Ok d \<or> (\<exists>e. for_each xs body d = Raise e d)"
proof (induction xs)
  case Nil
  show ?case by simp
next
  case (Cons x xs)
  from assms[of x d] show ?case
  proof
    assume "body x d = Ok d"
    with Cons show ?thesis by simp
  next
    assume "\<exists>e. body x d = Raise e d"
    then show ?thesis by auto
  qed
qed

lemma outline_step_keeps:
  assumes "draws P f t = Some e"
  shows "outline_step P p t f oc ax ay d = Ok d \<or> (\<exists>e'. outline_step P p t f oc ax ay d = Raise e' d)"
  using assms by (auto simp: outline_step_def draw_text_def split: sum.splits)

lemma stamp_fails:
  assumes "draws P f t = Some e"
  shows "\<exists>e'. draw_text_with_outline P d p t f fc oc w = Raise e' d"
proof -
  let ?r = "py_range (- w) (w + 1)"
  have inner: "for_each ?r (\<lambda>ay. outline_step P p t f oc ax ay) d' = Ok d'
      \<or> (\<exists>e'. for_each ?r (\<lambda>ay. outline_step P p t f oc ax ay) d' = Raise e' d')" for ax d'
    by (rule for_each_keeps) (rule outline_step_keeps[OF assms])
  have outer: "for_each ?r (\<lambda>ax. for_each ?r (\<lambda>ay. outline_step P p t f oc ax ay)) d = Ok d
      \<or> (\<exists>e'. for_each ?r (\<lambda>ax. for_each ?r (\<lambda>ay. outline_step P p t f oc ax ay)) d = Raise e' d)"
    by (rule for_each_keeps) (rule inner)
  then show ?thesis
    using assms by (auto simp: draw_text_with_outline_def draw_text_def split: sum.splits)
qed

lemma label_body_unmeasured:
  assumes "measure P f t = Inl e"
  shows "label_body P d t f place fc oc w = Raise e d"
  using assms by (simp add: label_body_def textbbox_def)

lemma label_body_undrawn:
  assumes "draws P f t = Some e"
  shows "\<exists>e'. label_body P d t f place fc oc w = Raise e' d"
  using stamp_fails[OF assms] by (auto simp: label_body_def split: sum.splits)

lemma label_body_unrendered:
  assumes "\<not> renders P f t"
  shows "\<exists>e. label_body P d t f place fc oc w = Raise e d"
proof (cases "measure P f t")
  case (Inl e)
  then show ?thesis by (auto simp: label_body_unmeasured)
next
  case (Inr b)
  with assms obtain e where "draws P f t = Some e" by (auto simp: renders_def)
  then show ?thesis by (rule label_body_undrawn)
qed

lemma try_label_unrendered:
  assumes "\<not> renders P f t"
  shows "fst (try_label P h t f place fc oc w st) = fst st"
    and "snd (try_label P Pass t f place fc oc w st) = snd st"
    and "\<exists>e. snd (try_label P PrintNote t f place fc oc w st) = snd st @ [Note e]"
  using label_body_unrendered[OF assms, of "fst st" place fc oc w]
  by (auto simp: try_label_def)

lemma try_label_unmeasured:
  assumes "measure P f t = Inl e"
  shows "try_label P h t f place fc oc w st =
     (fst st, case h of Pass \<Rightarrow> snd st | PrintNote \<Rightarrow> snd st @ [Note e])"
  by (simp add: try_label_def label_body_unmeasured[OF assms])

lemma label_draws_unrendered: "\<not> renders P f t \<Longrightarrow> label_draws P t f place fc oc w = []"
  by (auto simp: renders_def label_draws_def split: sum.splits)

lemma try_label_rendered:
  assumes "renders P f t" "hex_to_rgb fcs = Inr fc" "hex_to_rgb ocs = Inr oc"
  shows "try_label P h t f place fcs ocs w st =
     ((fst st)\<lparr>texts := texts (fst st) @ label_draws P t f place fc oc w\<rparr>, snd st)"
proof -
  from assms(1) obtain b where m: "measure P f t = Inr b" and d: "draws P f t = None"
    by (auto simp: renders_def split: sum.splits)
  obtain l u r bt where b: "b = (l, u, r, bt)" by (cases b) auto
  have "label_body P (fst st) t f place fcs ocs w =
      draw_text_with_outline P (fst st) (place b) t f fcs ocs w"
    by (simp add: label_body_def textbbox_def m b)
  also have "\<dots> = Ok ((fst st)\<lparr>texts := texts (fst st) @ halo (place b) t f oc (offsets w)
      @ [\<lparr>pos = place b, caption = t, fnt = f, ink = fc\<rparr>]\<rparr>)"
    by (rule outline_ok[OF assms(3,2) d])
  finally show ?thesis by (simp add: try_label_def label_draws_def m d)
qed

lemma try_label_canvas:
  assumes "hex_to_rgb fcs = Inr fc" "hex_to_rgb ocs = Inr oc"
  shows "fst (try_label P h t f place fcs ocs w st) =
     (fst st)\<lparr>texts := texts (fst st) @ label_draws P t f place fc oc w\<rparr>"
proof (cases "renders P f t")
  case True
  then show ?thesis by (simp add: try_label_rendered[OF _ assms])
next
  case False
  then show ?thesis
    by (simp add: try_label_unrendered(1) label_draws_unrendered)
qed

lemma try_label_lines_pass:
  assumes "hex_to_rgb fcs = Inr fc" "hex_to_rgb ocs = Inr oc"
  shows "snd (try_label P Pass t f place fcs ocs w st) = snd st"
proof (cases "renders P f t")
  case True
  then show ?thesis by (simp add: try_label_rendered[OF _ assms])
next
  case False
  then show ?thesis by (simp add: try_label_unrendered(2))
qed

subsection \<open>Facts about the three images\<close>

lemma hex_primary: "hex_to_rgb PRIMARY_BLUE = Inr (46, 124, 238)"
  by (simp add: PRIMARY_BLUE_def hex_to_rgb_hash hex_to_rgb_digits is_hexdigit_def hexval_def
      byte_of_def)

lemma hex_white: "hex_to_rgb WHITE = Inr (255, 255, 255)"
  by (simp add: WHITE_def hex_to_rgb_hash hex_to_rgb_digits is_hexdigit_def hexval_def byte_of_def)

lemma hex_gold: "hex_to_rgb GOLD = Inr (255, 215, 0)"
  by (simp add: GOLD_def hex_to_rgb_hash hex_to_rgb_digits is_hexdigit_def hexval_def byte_of_def)

lemma hex_light_blue: "hex_to_rgb LIGHT_BLUE = Inr (91, 163, 255)"
  by (simp add: LIGHT_BLUE_def hex_light)

lemma hex_dark_blue: "hex_to_rgb DARK_BLUE = Inr (30, 91, 184)"
  by (simp add: DARK_BLUE_def hex_dark)

lemma gradient_returns:
  assumes "hex_to_rgb ct = Inr T" "hex_to_rgb cb = Inr B"
  shows "\<exists>d'. create_gradient_background d w h ct cb = Ok d' \<and> texts d' = texts d"
  using gradient_loop_any[of "py_range 0 h" T B w h d]
  by (auto simp: gradient_runs[OF assms])

lemma get_font_returns: "\<exists>f. get_font P sz bold = Inr f"
  using font_loop_result[of P sz "font_options bold"] by (auto simp: get_font_def)

lemma image_new_texts:
  assumes "0 \<le> w" "0 \<le> h"
  shows "\<exists>img. image_new w h c = Inr img \<and> texts img = []"
  using assms by (simp add: image_new_def)

lemma create_app_icon_result:
  assumes "0 \<le> sz"
  shows "\<exists>f1 f2 f3 icon lines.
      get_font P (scaled sz (1 / 2)) True = Inr f1
      \<and> get_font P (scaled sz (1 / 10)) True = Inr f2
      \<and> get_font P (scaled sz (55 / 1000)) False = Inr f3
      \<and> create_app_icon P sz out = (Inr icon, lines)
      \<and> texts icon =
          label_draws P ''Rx'' f1 (centre_place sz sz (5 / 100)) (255, 255, 255) (30, 91, 184) 4
          @ label_draws P ''UWtopia'' f2 (row_place sz sz (15 / 100)) (255, 255, 255) (30, 91, 184) 2
          @ label_draws P ''@DrEndris'' f3 (row_place sz sz (85 / 100)) (255, 215, 0) (30, 91, 184) 2
      \<and> (renders P f1 ''Rx'' \<longrightarrow> lines = out @ [Creating ''app icon'' sz sz])
      \<and> (\<not> renders P f1 ''Rx'' \<longrightarrow>
            (\<exists>e. lines = out @ [Creating ''app icon'' sz sz, Note e]))
      \<and> (\<forall>e. measure P f1 ''Rx'' = Inl e \<longrightarrow>
            lines = out @ [Creating ''app icon'' sz sz, Note e])"
proof -
  from image_new_texts[OF assms assms] obtain img
    where img: "image_new sz sz (46, 124, 238) = Inr img" and ti: "texts img = []" by blast
  from gradient_returns[OF hex_light_blue hex_dark_blue, of img sz sz] obtain d0
    where g: "create_gradient_background img sz sz LIGHT_BLUE DARK_BLUE = Ok d0"
      and t0: "texts d0 = []" using ti by auto
  from get_font_returns obtain f1 where f1: "get_font P (scaled sz (1 / 2)) True = Inr f1" by blast
  from get_font_returns obtain f2 where f2: "get_font P (scaled sz (1 / 10)) True = Inr f2" by blast
  from get_font_returns obtain f3 where f3: "get_font P (scaled sz (55 / 1000)) False = Inr f3"
    by blast
  define out1 where "out1 = out @ [Creating ''app icon'' sz sz]"
  define st1 where "st1 = try_label P PrintNote ''Rx'' f1 (centre_place sz sz (5 / 100))
      WHITE DARK_BLUE 4 (d0, out1)"
  define st2 where "st2 = try_label P Pass ''UWtopia'' f2 (row_place sz sz (15 / 100))
      WHITE DARK_BLUE 2 st1"
  define st3 where "st3 = try_label P Pass ''@DrEndris'' f3 (row_place sz sz (85 / 100))
      GOLD DARK_BLUE 2 st2"
  have run: "create_app_icon P sz out = (Inr (fst st3), snd st3)"
    by (simp only: create_app_icon_def Let_def hex_primary img g f1 f2 f3
        st1_def st2_def st3_def out1_def sum.case result.case)
  have c1: "fst st1 = d0\<lparr>texts := texts d0 @ label_draws P ''Rx'' f1
      (centre_place sz sz (5 / 100)) (255, 255, 255) (30, 91, 184) 4\<rparr>"
    unfolding st1_def using try_label_canvas[OF hex_white hex_dark_blue, of P PrintNote] by simp
  have c2: "fst st2 = (fst st1)\<lparr>texts := texts (fst st1) @ label_draws P ''UWtopia'' f2
      (row_place sz sz (15 / 100)) (255, 255, 255) (30, 91, 184) 2\<rparr>"
    unfolding st2_def by (rule try_label_canvas[OF hex_white hex_dark_blue])
  have c3: "fst st3 = (fst st2)\<lparr>texts := texts (fst st2) @ label_draws P ''@DrEndris'' f3
      (row_place sz sz (85 / 100)) (255, 215, 0) (30, 91, 184) 2\<rparr>"
    unfolding st3_def by (rule try_label_canvas[OF hex_gold hex_dark_blue])
  have l2: "snd st2 = snd st1"
    unfolding st2_def by (rule try_label_lines_pass[OF hex_white hex_dark_blue])
  have l3: "snd st3 = snd st2"
    unfolding st3_def by (rule try_label_lines_pass[OF hex_gold hex_dark_blue])
  have tx: "texts (fst st3) =
          label_draws P ''Rx'' f1 (centre_place sz sz (5 / 100)) (255, 255, 255) (30, 91, 184) 4
          @ label_draws P ''UWtopia'' f2 (row_place sz sz (15 / 100)) (255, 255, 255) (30, 91, 184) 2
          @ label_draws P ''@DrEndris'' f3 (row_place sz sz (85 / 100)) (255, 215, 0) (30, 91, 184) 2"
    by (simp add: c3 c2 c1 t0)
  have n1: "renders P f1 ''Rx'' \<longrightarrow> snd st3 = out1"
    unfolding l3 l2 st1_def by (simp add: try_label_rendered[OF _ hex_white hex_dark_blue])
  have n2: "\<not> renders P f1 ''Rx'' \<longrightarrow> (\<exists>e. snd st3 = out1 @ [Note e])"
    unfolding l3 l2 st1_def using try_label_unrendered(3)[of P f1 "''Rx''"] by auto
  have n3: "\<forall>e. measure P f1 ''Rx'' = Inl e \<longrightarrow> snd st3 = out1 @ [Note e]"
    unfolding l3 l2 st1_def by (simp add: try_label_unmeasured)
  from f1 f2 f3 run tx n1 n2 n3 show ?thesis unfolding out1_def by auto
qed

lemma create_adaptive_icon_result:
  assumes "0 \<le> sz"
  shows "\<exists>f1 f2 icon.
      get_font P (scaled sz (55 / 100)) True = Inr f1
      \<and> get_font P (scaled sz (8 / 100)) True = Inr f2
      \<and> create_adaptive_icon P sz out = (Inr icon, out @ [Creating ''adaptive icon'' sz sz])
      \<and> texts icon =
          label_draws P ''Rx'' f1 (centre_place sz sz (8 / 100)) (46, 124, 238) (255, 255, 255) 3
          @ label_draws P ''UWtopia'' f2 (row_place sz sz (65 / 100)) (46, 124, 238) (255, 255, 255) 2"
proof -
  from image_new_texts[OF assms assms] obtain img
    where img: "image_new sz sz (255, 255, 255) = Inr img" and ti: "texts img = []" by blast
  from gradient_returns[OF hex_white hex_light_blue, of img sz sz] obtain d0
    where g: "create_gradient_background img sz sz WHITE LIGHT_BLUE = Ok d0"
      and t0: "texts d0 = []" using ti by auto
  from get_font_returns obtain f1 where f1: "get_font P (scaled sz (55 / 100)) True = Inr f1"
    by blast
  from get_font_returns obtain f2 where f2: "get_font P (scaled sz (8 / 100)) True = Inr f2"
    by blast
  define out1 where "out1 = out @ [Creating ''adaptive icon'' sz sz]"
  define st1 where "st1 = try_label P Pass ''Rx'' f1 (centre_place sz sz (8 / 100))
      PRIMARY_BLUE WHITE 3 (d0, out1)"
  define st2 where "st2 = try_label P Pass ''UWtopia'' f2 (row_place sz sz (65 / 100))
      PRIMARY_BLUE WHITE 2 st1"
  have run: "create_adaptive_icon P sz out = (Inr (fst st2), snd st2)"
    by (simp only: create_adaptive_icon_def Let_def hex_white img g f1 f2
        st1_def st2_def out1_def sum.case result.case)
  have c1: "fst st1 = d0\<lparr>texts := texts d0 @ label_draws P ''Rx'' f1
      (centre_place sz sz (8 / 100)) (46, 124, 238) (255, 255, 255) 3\<rparr>"
    unfolding st1_def using try_label_canvas[OF hex_primary hex_white, of P Pass] by simp
  have c2: "fst st2 = (fst st1)\<lparr>texts := texts (fst st1) @ label_draws P ''UWtopia'' f2
      (row_place sz sz (65 / 100)) (46, 124, 238) (255, 255, 255) 2\<rparr>"
    unfolding st2_def by (rule try_label_canvas[OF hex_primary hex_white])
  have l1: "snd st1 = out1"
    unfolding st1_def using try_label_lines_pass[OF hex_primary hex_white, of P] by simp
  have l2: "snd st2 = snd st1"
    unfolding st2_def by (rule try_label_lines_pass[OF hex_primary hex_white])
  have tx: "texts (fst st2) =
          label_draws P ''Rx'' f1 (centre_place sz sz (8 / 100)) (46, 124, 238) (255, 255, 255) 3
          @ label_draws P ''UWtopia'' f2 (row_place sz sz (65 / 100)) (46, 124, 238) (255, 255, 255) 2"
    by (simp add: c2 c1 t0)
  from f1 f2 run tx l1 l2 show ?thesis unfolding out1_def by auto
qed

lemma create_splash_screen_result:
  assumes "0 \<le> width" "0 \<le> height"
  shows "\<exists>f1 f2 f3 f4 splash.
      get_font P (scaled width (1 / 2)) True = Inr f1
      \<and> get_font P (scaled width (12 / 100)) True = Inr f2
      \<and> get_font P (scaled width (6 / 100)) False = Inr f3
      \<and> get_font P (scaled width (55 / 1000)) False = Inr f4
      \<and> create_splash_screen P width height out =
          (Inr splash, out @ [Creating ''splash screen'' width height])
      \<and> texts splash =
          label_draws P ''Rx'' f1 (centre_place width height (1 / 10))
            (255, 255, 255) (30, 91, 184) 5
          @ label_draws P ''UWtopia Rx'' f2 (row_place width height (15 / 100))
            (255, 255, 255) (30, 91, 184) 3
          @ label_draws P ''Medical Question Bank'' f3 (row_place width height (24 / 100))
            (255, 255, 255) (30, 91, 184) 2
          @ label_draws P ''by @DrEndris'' f4 (row_place width height (88 / 100))
            (255, 215, 0) (30, 91, 184) 2"
proof -
  from image_new_texts[OF assms] obtain img
    where img: "image_new width height (46, 124, 238) = Inr img" and ti: "texts img = []" by blast
  from gradient_returns[OF hex_light_blue hex_dark_blue, of img width height] obtain d0
    where g: "create_gradient_background img width height LIGHT_BLUE DARK_BLUE = Ok d0"
      and t0: "texts d0 = []" using ti by auto
  from get_font_returns obtain f1 where f1: "get_font P (scaled width (1 / 2)) True = Inr f1"
    by blast
  from get_font_returns obtain f2 where f2: "get_font P (scaled width (12 / 100)) True = Inr f2"
    by blast
  from get_font_returns obtain f3 where f3: "get_font P (scaled width (6 / 100)) False = Inr f3"
    by blast
  from get_font_returns obtain f4 where f4: "get_font P (scaled width (55 / 1000)) False = Inr f4"
    by blast
  define out1 where "out1 = out @ [Creating ''splash screen'' width height]"
  define st1 where "st1 = try_label P Pass ''Rx'' f1 (centre_place width height (1 / 10))
      WHITE DARK_BLUE 5 (d0, out1)"
  define st2 where "st2 = try_label P Pass ''UWtopia Rx'' f2 (row_place width height (15 / 100))
      WHITE DARK_BLUE 3 st1"
  define st3 where "st3 = try_label P Pass ''Medical Question Bank'' f3
      (row_place width height (24 / 100)) WHITE DARK_BLUE 2 st2"
  define st4 where "st4 = try_label P Pass ''by @DrEndris'' f4
      (row_place width height (88 / 100)) GOLD DARK_BLUE 2 st3"
  have run: "create_splash_screen P width height out = (Inr (fst st4), snd st4)"
    by (simp only: create_splash_screen_def Let_def hex_primary img g f1 f2 f3 f4
        st1_def st2_def st3_def st4_def out1_def sum.case result.case)
  have c1: "fst st1 = d0\<lparr>texts := texts d0 @ label_draws P ''Rx'' f1
      (centre_place width height (1 / 10)) (255, 255, 255) (30, 91, 184) 5\<rparr>"
    unfolding st1_def using try_label_canvas[OF hex_white hex_dark_blue, of P Pass] by simp
  have c2: "fst st2 = (fst st1)\<lparr>texts := texts (fst st1) @ label_draws P ''UWtopia Rx'' f2
      (row_place width height (15 / 100)) (255, 255, 255) (30, 91, 184) 3\<rparr>"
    unfolding st2_def by (rule try_label_canvas[OF hex_white hex_dark_blue])
  have c3: "fst st3 = (fst st2)\<lparr>texts := texts (fst st2)
      @ label_draws P ''Medical Question Bank'' f3
      (row_place width height (24 / 100)) (255, 255, 255) (30, 91, 184) 2\<rparr>"
    unfolding st3_def by (rule try_label_canvas[OF hex_white hex_dark_blue])
  have c4: "fst st4 = (fst st3)\<lparr>texts := texts (fst st3) @ label_draws P ''by @DrEndris'' f4
      (row_place width height (88 / 100)) (255, 215, 0) (30, 91, 184) 2\<rparr>"
    unfolding st4_def by (rule try_label_canvas[OF hex_gold hex_dark_blue])
  have l1: "snd st1 = out1"
    unfolding st1_def using try_label_lines_pass[OF hex_white hex_dark_blue, of P] by simp
  have l2: "snd st2 = snd st1"
    unfolding st2_def by (rule try_label_lines_pass[OF hex_white hex_dark_blue])
  have l3: "snd st3 = snd st2"
    unfolding st3_def by (rule try_label_lines_pass[OF hex_white hex_dark_blue])
  have l4: "snd st4 = snd st3"
    unfolding st4_def by (rule try_label_lines_pass[OF hex_gold hex_dark_blue])
  have tx: "texts (fst st4) =
          label_draws P ''Rx'' f1 (centre_place width height (1 / 10))
            (255, 255, 255) (30, 91, 184) 5
          @ label_draws P ''UWtopia Rx'' f2 (row_place width height (15 / 100))
            (255, 255, 255) (30, 91, 184) 3
          @ label_draws P ''Medical Question Bank'' f3 (row_place width height (24 / 100))
            (255, 255, 255) (30, 91, 184) 2
          @ label_draws P ''by @DrEndris'' f4 (row_place width height (88 / 100))
            (255, 215, 0) (30, 91, 184) 2"
    by (simp add: c4 c3 c2 c1 t0)
  from f1 f2 f3 f4 run tx l1 l2 l3 l4 show ?thesis unfolding out1_def by auto
qed

subsection \<open>The rounding error of one channel\<close>

lemma round_half_even_near:
  "\<bar>of_int (round_half_even q) - q\<bar> \<le> 1 / 2"
proof -
  define f where "f = \<lfloor>q\<rfloor>"
  have b: "of_int f \<le> q" "q < of_int f + 1" unfolding f_def by linarith+
  consider "q - of_int f < 1 / 2" | "1 / 2 < q - of_int f" | "q - of_int f = 1 / 2"
    by linarith
  then show ?thesis
  proof cases
    case 1
    then have "round_half_even q = f" by (simp add: round_half_even_def Let_def f_def)
    with 1 b show ?thesis by simp
  next
    case 2
    then have "round_half_even q = f + 1" by (simp add: round_half_even_def Let_def f_def)
    with 2 b show ?thesis by simp
  next
    case 3
    then have "round_half_even q = f \<or> round_half_even q = f + 1"
      by (simp add: round_half_even_def Let_def f_def)
    with 3 show ?thesis by auto
  qed
qed

lemma fl_error_pos:
  assumes "0 < x"
  shows "\<bar>fl x - x\<bar> \<le> 2 powi (ulp_exp x) / 2"
proof -
  define u :: rat where "u = 2 powi (ulp_exp x)"
  have u: "0 < u" by (simp add: u_def)
  have "fl x - x = (of_int (round_half_even (x / u)) - x / u) * u"
    using u by (simp add: fl_pos_eq[OF assms] u_def algebra_simps)
  then have "\<bar>fl x - x\<bar> = \<bar>of_int (round_half_even (x / u)) - x / u\<bar> * u"
    using u by (simp add: abs_mult)
  also have "\<dots> \<le> (1 / 2) * u"
    using round_half_even_near[of "x / u"] u by (intro mult_right_mono) simp_all
  finally show ?thesis by (simp add: u_def)
qed

lemma fl_error_small:
  assumes "\<bar>x\<bar> < 512"
  shows "\<bar>fl x - x\<bar> \<le> 2 powi (- 45)"
proof -
  have pos: "\<bar>fl x - x\<bar> \<le> 2 powi (- 45)" if x: "0 < x" "x < 512" for x
  proof -
    have "ilog2 x < 9"
    proof (rule ccontr)
      assume "\<not> ilog2 x < 9"
      then have "9 \<le> ilog2 x" by simp
      then have "(2::rat) powi 9 \<le> 2 powi (ilog2 x)" by (rule pow2_le)
      with ilog2_bounds(1)[OF x(1)] x(2) show False by simp
    qed
    then have "ulp_exp x \<le> - 44" by (simp add: ulp_exp_def)
    then have "(2::rat) powi (ulp_exp x) \<le> 2 powi (- 44)" by (rule pow2_le)
    then have "(2::rat) powi (ulp_exp x) / 2 \<le> 2 powi (- 44) / 2" by simp
    also have "(2::rat) powi (- 44) / 2 = 2 powi (- 45)"
      using pow2_diff[of "- 44" 1] by simp
    finally show ?thesis using fl_error_pos[OF x(1)] by linarith
  qed
  consider "0 < x" | "x = 0" | "x < 0" by linarith
  then show ?thesis
  proof cases
    case 1
    with assms show ?thesis by (intro pos) simp_all
  next
    case 2
    then show ?thesis by (simp add: fl_zero)
  next
    case 3
    with assms have "\<bar>fl (- x) - (- x)\<bar> \<le> 2 powi (- 45)" by (intro pos) simp_all
    then show ?thesis by (simp add: fl_minus abs_minus_commute)
  qed
qed

lemma channel_near_exact:
  assumes "byte c1" "byte c2" "0 < h" "0 \<le> y" "y < h"
  shows "\<bar>channel c1 c2 (py_truediv y h) - exact_interpolation c1 c2 y h\<bar> \<le> 1"
proof -
  define \<rho> :: rat where "\<rho> = of_int y / of_int h"
  define r where "r = py_truediv y h"
  define dd :: rat where "dd = of_int (c2 - c1)"
  define p where "p = fl (dd * r)"
  define s' where "s' = fl (of_int c1 + p)"
  define s :: rat where "s = of_int c1 + dd * \<rho>"
  define eps :: rat where "eps = 2 powi (- 45)"
  have c: "0 \<le> c1" "c1 \<le> 255" "0 \<le> c2" "c2 \<le> 255" using assms(1,2) by (simp_all add: byte_def)
  have a: "\<bar>c1\<bar> \<le> 255" "\<bar>c2\<bar> \<le> 255" using c by simp_all
  have rho: "0 \<le> \<rho>" "\<rho> < 1" using assms(3-5) by (simp_all add: \<rho>_def)
  have r01: "0 \<le> r" "r \<le> 1" unfolding r_def by (rule py_truediv_unit[OF assms(3-5)])+
  have d: "\<bar>dd\<bar> \<le> 255" using c by (simp add: dd_def)
  have e1: "\<bar>r - \<rho>\<bar> \<le> eps"
    unfolding r_def py_truediv_def \<rho>_def[symmetric] eps_def using rho
    by (intro fl_error_small) simp
  have dr: "\<bar>dd * r\<bar> \<le> 255"
  proof -
    have "\<bar>dd * r\<bar> = \<bar>dd\<bar> * r" using r01 by (simp add: abs_mult)
    also have "\<dots> \<le> 255 * 1" using d r01 by (intro mult_mono) simp_all
    finally show ?thesis by simp
  qed
  have e2: "\<bar>p - dd * r\<bar> \<le> eps"
    unfolding p_def eps_def using dr by (intro fl_error_small) simp
  have pb: "\<bar>p\<bar> \<le> 256"
  proof -
    have "eps \<le> 1" unfolding eps_def using pow2_le[of "- 45" 0] by simp
    with e2 dr show ?thesis by linarith
  qed
  have cr: "(0::rat) \<le> of_int c1" "(of_int c1 :: rat) \<le> 255" using c by simp_all
  have "\<bar>of_int c1 + p\<bar> < 512" using pb cr by linarith
  then have e3: "\<bar>s' - (of_int c1 + p)\<bar> \<le> eps"
    unfolding s'_def eps_def by (rule fl_error_small)
  have e4: "\<bar>dd * r - dd * \<rho>\<bar> \<le> 255 * eps"
  proof -
    have "\<bar>dd * r - dd * \<rho>\<bar> = \<bar>dd\<bar> * \<bar>r - \<rho>\<bar>"
      by (simp add: abs_mult[symmetric] algebra_simps)
    also have "\<dots> \<le> 255 * eps" using d e1 by (intro mult_mono) simp_all
    finally show ?thesis .
  qed
  have "\<bar>s' - s\<bar> \<le> 257 * eps" unfolding s_def using e2 e3 e4 by linarith
  moreover have "257 * eps < 1"
  proof -
    have "eps \<le> 2 powi (- 9)" unfolding eps_def by (rule pow2_le) simp
    then show ?thesis by simp
  qed
  ultimately have near: "\<bar>s' - s\<bar> < 1" by linarith
  have s0: "0 \<le> s"
  proof -
    have "s = of_int c1 * (1 - \<rho>) + of_int c2 * \<rho>"
      by (simp add: s_def dd_def algebra_simps)
    moreover have "0 \<le> of_int c1 * (1 - \<rho>)" using c rho by simp
    moreover have "0 \<le> of_int c2 * \<rho>" using c rho by simp
    ultimately show ?thesis by linarith
  qed
  have ch: "channel c1 c2 r = py_int_of_float s'"
    by (simp add: channel_eq[OF a] s'_def p_def dd_def)
  have s'0: "0 \<le> s'"
  proof -
    have "- of_int c1 \<le> dd * r"
    proof (cases "0 \<le> dd")
      case True
      then have "0 \<le> dd * r" using r01 by simp
      with cr show ?thesis by linarith
    next
      case False
      then have "dd * 1 \<le> dd * r" using r01 by (intro mult_left_mono_neg) simp_all
      moreover have "- of_int c1 \<le> dd" using c by (simp add: dd_def)
      ultimately show ?thesis by simp
    qed
    then have "fl (- of_int c1) \<le> fl (dd * r)" by (rule fl_mono)
    moreover have "fl (of_int (- c1)) = of_int (- c1)" using c by (intro fl_of_int) simp
    ultimately have "- of_int c1 \<le> p" by (simp add: p_def)
    then have "0 \<le> of_int c1 + p" by simp
    then show ?thesis unfolding s'_def by (rule fl_nonneg)
  qed
  have "channel c1 c2 r = \<lfloor>s'\<rfloor>" using s'0 by (simp add: ch py_int_of_float_def)
  moreover have "exact_interpolation c1 c2 y h = \<lfloor>s\<rfloor>"
    using s0 by (simp add: exact_interpolation_def py_int_of_float_def s_def dd_def \<rho>_def)
  moreover have "\<bar>\<lfloor>s'\<rfloor> - \<lfloor>s\<rfloor>\<bar> \<le> 1"
  proof -
    have "of_int \<lfloor>s'\<rfloor> \<le> s'" "s' < of_int \<lfloor>s'\<rfloor> + 1"
      "of_int \<lfloor>s\<rfloor> \<le> s" "s < of_int \<lfloor>s\<rfloor> + 1" by linarith+
    with near have "(of_int \<lfloor>s'\<rfloor> :: rat) < of_int \<lfloor>s\<rfloor> + 2"
      "(of_int \<lfloor>s\<rfloor> :: rat) < of_int \<lfloor>s'\<rfloor> + 2" by linarith+
    then have "(of_int \<lfloor>s'\<rfloor> :: rat) < of_int (\<lfloor>s\<rfloor> + 2)"
      "(of_int \<lfloor>s\<rfloor> :: rat) < of_int (\<lfloor>s'\<rfloor> + 2)" by simp_all
    then have "\<lfloor>s'\<rfloor> < \<lfloor>s\<rfloor> + 2" "\<lfloor>s\<rfloor> < \<lfloor>s'\<rfloor> + 2" by (simp_all only: of_int_less_iff)
    then show ?thesis by linarith
  qed
  ultimately show ?thesis by (simp add: r_def)
qed








section \<open>Claims\<close>

text \<open>
  C9. For every string of exactly six hexadecimal digits, optionally preceded by one
  \<^verbatim>\<open>#\<close>, \<open>hex_to_rgb\<close> returns the three bytes read from the consecutive digit
  pairs, in the order red, green, blue, and every channel lies in \<open>[0, 255]\<close>.
\<close>

theorem hex_to_rgb_six_digits:
  assumes "hex6 ds" and "s = ds \<or> s = CHR ''#'' # ds"
  shows "\<exists>r g b. hex_to_rgb s = Inr (r, g, b)
           \<and> r = byte_of (ds ! 0) (ds ! 1)
           \<and> g = byte_of (ds ! 2) (ds ! 3)
           \<and> b = byte_of (ds ! 4) (ds ! 5)
           \<and> 0 \<le> r \<and> r \<le> 255 \<and> 0 \<le> g \<and> g \<le> 255 \<and> 0 \<le> b \<and> b \<le> 255"
proof -
  from assms(1) obtain a b c d e f where ds: "ds = [a, b, c, d, e, f]"
    and h: "is_hexdigit a" "is_hexdigit b" "is_hexdigit c"
      "is_hexdigit d" "is_hexdigit e" "is_hexdigit f"
    by (rule hex6_cases)
  have "hex_to_rgb s = hex_to_rgb ds"
    using assms(2) by (auto simp: hex_to_rgb_hash)
  then have "hex_to_rgb s = Inr (byte_of a b, byte_of c d, byte_of e f)"
    by (simp add: ds hex_to_rgb_digits h)
  then show ?thesis
    using byte_of_range[OF h(1,2)] byte_of_range[OF h(3,4)] byte_of_range[OF h(5,6)]
    by (simp add: ds)
qed

theorem hex_to_rgb_six_digits_witness:
  "hex6 ''2E7CEE'' \<and> hex_to_rgb ''#2E7CEE'' = Inr (46, 124, 238)"
proof -
  have h: "hex6 ''2E7CEE''"
    by (simp add: hex6_def is_hexdigit_def hexval_def)
  have b: "byte_of (''2E7CEE'' ! 0) (''2E7CEE'' ! 1) = 46"
    "byte_of (''2E7CEE'' ! 2) (''2E7CEE'' ! 3) = 124"
    "byte_of (''2E7CEE'' ! 4) (''2E7CEE'' ! 5) = 238"
    by (simp_all add: byte_of_def hexval_def)
  from hex_to_rgb_six_digits[OF h, of "''#2E7CEE''"] b h show ?thesis
    by auto
qed

text \<open>
  C2. For every outline width \<open>w \<ge> 0\<close>, \<open>draw_text_with_outline\<close> first draws the
  text in the outline colour at every offset \<open>(dx, dy)\<close> with \<open>dx, dy\<close> in
  \<open>[-w, w]\<close> except \<open>(0, 0)\<close>, each offset once, which are \<open>(2w+1)\<^sup>2 - 1\<close> draws
  filling the square and not only its border, and then draws the text once in the fill
  colour at the anchor, so that the fill draw is the last one. With \<open>w = 0\<close> only the
  fill draw is made, whatever the outline colour string is.
\<close>

theorem outline_fills_square_then_anchor:
  assumes "0 \<le> w"
    and "w = 0 \<or> hex_to_rgb outline_color = Inr oc"
    and "hex_to_rgb fill_color = Inr fc"
    and "draws P font text = None"
  shows "\<exists>offs.
      draw_text_with_outline P d position text font fill_color outline_color w =
        Ok (d\<lparr>texts := texts d @ halo position text font oc offs
              @ [\<lparr>pos = position, caption = text, fnt = font, ink = fc\<rparr>]\<rparr>)
      \<and> set offs = {(dx, dy). - w \<le> dx \<and> dx \<le> w \<and> - w \<le> dy \<and> dy \<le> w \<and> (dx, dy) \<noteq> (0, 0)}
      \<and> distinct offs
      \<and> int (length offs) = (2 * w + 1)\<^sup>2 - 1
      \<and> (w = 0 \<longrightarrow> offs = [])"
proof -
  have run: "draw_text_with_outline P d position text font fill_color outline_color w =
        Ok (d\<lparr>texts := texts d @ halo position text font oc (offsets w)
              @ [\<lparr>pos = position, caption = text, fnt = font, ink = fc\<rparr>]\<rparr>)"
  proof (cases "w = 0")
    case True
    have "offsets 0 = []" by (simp add: offsets_def)
    then show ?thesis
      by (simp add: True outline_width_zero assms(3) draw_text_def assms(4) halo_def)
  next
    case False
    with assms(2) have "hex_to_rgb outline_color = Inr oc" by simp
    then show ?thesis using assms(3,4) by (rule outline_ok)
  qed
  have zero: "w = 0 \<longrightarrow> offsets w = []" by (simp add: offsets_def)
  from run set_offsets[of w] distinct_offsets[of w] length_offsets[OF assms(1)] zero
  show ?thesis by blast
qed

theorem outline_fills_square_then_anchor_witness:
  "(0::int) \<le> 1
   \<and> hex_to_rgb ''#1E5BB8'' = Inr (30, 91, 184)
   \<and> hex_to_rgb ''#FFFFFF'' = Inr (255, 255, 255)
   \<and> (\<exists>offs.
        draw_text_with_outline
          \<lparr>path_exists = (\<lambda>p. False), truetype = (\<lambda>p n. Inl (LibraryError ''cannot open resource'')),
            measure = (\<lambda>f t. Inr (0, 0, 10, 10)), draws = (\<lambda>f t. None)\<rparr>
          \<lparr>rows = [], texts = []\<rparr> (5, 7) ''Rx'' DefaultFont ''#FFFFFF'' ''#1E5BB8'' 1 =
        Ok \<lparr>rows = [], texts = halo (5, 7) ''Rx'' DefaultFont (30, 91, 184) offs
              @ [\<lparr>pos = (5, 7), caption = ''Rx'', fnt = DefaultFont, ink = (255, 255, 255)\<rparr>]\<rparr>
        \<and> int (length offs) = 8)"
proof -
  have o: "hex_to_rgb ''#1E5BB8'' = Inr (30, 91, 184)"
    by (simp add: hex_to_rgb_hash hex_to_rgb_digits is_hexdigit_def hexval_def byte_of_def)
  have f: "hex_to_rgb ''#FFFFFF'' = Inr (255, 255, 255)"
    by (simp add: hex_to_rgb_hash hex_to_rgb_digits is_hexdigit_def hexval_def byte_of_def)
  have w: "(0::int) \<le> 1" by simp
  have d: "draws \<lparr>path_exists = (\<lambda>p. False), truetype = (\<lambda>p n. Inl (LibraryError ''cannot open resource'')),
            measure = (\<lambda>f t. Inr (0, 0, 10, 10)), draws = (\<lambda>f t. None)\<rparr> DefaultFont ''Rx'' = None"
    by simp
  from outline_fills_square_then_anchor[OF w disjI2[OF o] f d,
      of "\<lparr>rows = [], texts = []\<rparr>" "(5, 7)"]
  show ?thesis using o f by auto
qed

text \<open>
  C10. For every negative outline width, \<open>draw_text_with_outline\<close> behaves exactly as
  with width \<open>0\<close>: both offset ranges are empty, no outline draw is made, the outline
  colour is not even parsed, and the text is drawn once in the fill colour at the anchor.
\<close>

theorem negative_outline_width_draws_fill_only:
  assumes "w < 0"
  shows "draw_text_with_outline P d position text font fill_color outline_color w =
           draw_text_with_outline P d position text font fill_color outline_color 0
         \<and> (hex_to_rgb fill_color = Inr fc \<and> draws P font text = None \<longrightarrow>
              draw_text_with_outline P d position text font fill_color outline_color w =
                Ok (d\<lparr>texts := texts d
                      @ [\<lparr>pos = position, caption = text, fnt = font, ink = fc\<rparr>]\<rparr>))"
  using assms
  by (simp add: outline_negative outline_width_zero draw_text_def)

theorem negative_outline_width_draws_fill_only_witness:
  "(- 3 :: int) < 0
   \<and> hex_to_rgb ''FFD700'' = Inr (255, 215, 0)
   \<and> draw_text_with_outline
        \<lparr>path_exists = (\<lambda>p. False), truetype = (\<lambda>p n. Inl (LibraryError ''cannot open resource'')),
          measure = (\<lambda>f t. Inr (0, 0, 10, 10)), draws = (\<lambda>f t. None)\<rparr>
        \<lparr>rows = [], texts = []\<rparr> (5, 7) ''Rx'' DefaultFont ''FFD700'' ''not a colour'' (- 3) =
      Ok \<lparr>rows = [], texts =
            [\<lparr>pos = (5, 7), caption = ''Rx'', fnt = DefaultFont, ink = (255, 215, 0)\<rparr>]\<rparr>"
proof -
  have f: "hex_to_rgb ''FFD700'' = Inr (255, 215, 0)"
    by (simp add: hex_to_rgb_digits is_hexdigit_def hexval_def byte_of_def)
  have w: "(- 3 :: int) < 0" by simp
  note inst = negative_outline_width_draws_fill_only[OF w,
      of "\<lparr>path_exists = (\<lambda>p. False), truetype = (\<lambda>p n. Inl (LibraryError ''cannot open resource'')),
          measure = (\<lambda>f t. Inr (0, 0, 10, 10)), draws = (\<lambda>f t. None)\<rparr>"
         "\<lparr>rows = [], texts = []\<rparr>" "(5, 7)" "''Rx''" DefaultFont "''FFD700''"
         "''not a colour''" "(255, 215, 0)"]
  from inst[THEN conjunct2]
  show ?thesis using f by simp
qed

text \<open>
  C1, as amended. For every positive width and height, every image of that size and
  every pair of valid colours, \<open>create_gradient_background\<close> returns, leaves the text
  draws alone, and fills row \<open>y\<close>, for every \<open>y\<close> in \<open>[0, height)\<close>, uniformly
  with the colour whose channels are \<open>channel c1 c2 ratio\<close>: the expression
  \<^verbatim>\<open>int(c1 + (c2 - c1) * ratio)\<close> with \<^verbatim>\<open>ratio = y / height\<close>, evaluated in
  binary64 arithmetic, each of the division, the product and the sum rounded to nearest,
  and the result truncated. Each channel depends on its own two end values and the row
  only, and differs by at most 1 from the exact truncated interpolation
  \<open>exact_interpolation\<close>. The claim as stated, with the interpolation taken exactly,
  fails: on a 1 by 10
  image from \<^verbatim>\<open>#000000\<close> to \<^verbatim>\<open>#5A5A5A\<close>, row 7 is 62, where the exact
  interpolation \<open>0 + 90 * 7 / 10\<close> is 63.
\<close>

theorem gradient_rows_interpolated:
  assumes "0 < width" "0 < height" "sized d width height"
    and "valid_color color_top" "valid_color color_bottom"
    and "hex_to_rgb color_top = Inr (r1, g1, b1)"
    and "hex_to_rgb color_bottom = Inr (r2, g2, b2)"
  shows "\<exists>d'. create_gradient_background d width height color_top color_bottom = Ok d'
      \<and> sized d' width height \<and> texts d' = texts d
      \<and> (\<forall>y. 0 \<le> y \<and> y < height \<longrightarrow>
            rows d' ! nat y = replicate (nat width)
              (channel r1 r2 (py_truediv y height),
               channel g1 g2 (py_truediv y height),
               channel b1 b2 (py_truediv y height))
            \<and> \<bar>channel r1 r2 (py_truediv y height) - exact_interpolation r1 r2 y height\<bar> \<le> 1
            \<and> \<bar>channel g1 g2 (py_truediv y height) - exact_interpolation g1 g2 y height\<bar> \<le> 1
            \<and> \<bar>channel b1 b2 (py_truediv y height) - exact_interpolation b1 b2 y height\<bar> \<le> 1)"
proof -
  note t = valid_bytes[OF assms(4,6)] and b = valid_bytes[OF assms(5,7)]
  from gradient_rows[OF assms(3,1) assms(6) t assms(7) b]
  obtain d' where run: "create_gradient_background d width height color_top color_bottom = Ok d'"
    and sz: "sized d' width height" and tx: "texts d' = texts d"
    and r: "\<forall>y. 0 \<le> y \<and> y < height \<longrightarrow> rows d' ! nat y = replicate (nat width)
              (channel r1 r2 (py_truediv y height), channel g1 g2 (py_truediv y height),
               channel b1 b2 (py_truediv y height))"
    by blast
  have n: "\<bar>channel c1 c2 (py_truediv y height) - exact_interpolation c1 c2 y height\<bar> \<le> 1"
    if "byte c1" "byte c2" "0 \<le> y \<and> y < height" for c1 c2 y
    using channel_near_exact[OF that(1,2) assms(2), of y] that(3) by simp
  from run sz tx r n[OF t(1) b(1)] n[OF t(2) b(2)] n[OF t(3) b(3)]
  show ?thesis by (intro exI[of _ d']) simp
qed

theorem gradient_rows_interpolated_witness:
  "(0::int) < 1 \<and> (0::int) < 2
   \<and> sized \<lparr>rows = [[(9, 9, 9)], [(9, 9, 9)]], texts = []\<rparr> 1 2
   \<and> valid_color ''#000000'' \<and> valid_color ''#5A5A5A''
   \<and> hex_to_rgb ''#000000'' = Inr (0, 0, 0) \<and> hex_to_rgb ''#5A5A5A'' = Inr (90, 90, 90)
   \<and> (\<exists>d'. create_gradient_background \<lparr>rows = [[(9, 9, 9)], [(9, 9, 9)]], texts = []\<rparr> 1 2
              ''#000000'' ''#5A5A5A'' = Ok d'
          \<and> rows d' ! 0 = [(0, 0, 0)] \<and> rows d' ! 1 = [(45, 45, 45)])"
proof -
  have s: "sized \<lparr>rows = [[(9, 9, 9)], [(9, 9, 9)]], texts = []\<rparr> 1 2"
    by (simp add: sized_def)
  have w: "(0::int) < 1" and h: "(0::int) < 2" by simp_all
  from gradient_rows_interpolated[OF w h s valid_black valid_grey hex_black hex_grey]
  obtain d' where run: "create_gradient_background \<lparr>rows = [[(9, 9, 9)], [(9, 9, 9)]], texts = []\<rparr>
        1 2 ''#000000'' ''#5A5A5A'' = Ok d'"
    and r: "\<forall>y. 0 \<le> y \<and> y < 2 \<longrightarrow> rows d' ! nat y = replicate (nat 1)
              (channel 0 90 (py_truediv y 2), channel 0 90 (py_truediv y 2),
               channel 0 90 (py_truediv y 2))"
    by auto
  from r[rule_format, of 0] have r0: "rows d' ! 0 = [(0, 0, 0)]"
    by (simp add: grey_row_0)
  from r[rule_format, of 1] have r1: "rows d' ! 1 = [(45, 45, 45)]"
    by (simp add: grey_row_1_of_2)
  from run r0 r1 s valid_black valid_grey hex_black hex_grey show ?thesis by simp
qed

theorem gradient_row_differs_from_exact_interpolation:
  "returns (create_gradient_background
      \<lparr>rows = replicate 10 [(255, 255, 255)], texts = []\<rparr> 1 10 ''#000000'' ''#5A5A5A'')
   \<and> rows (canvas_of (create_gradient_background
      \<lparr>rows = replicate 10 [(255, 255, 255)], texts = []\<rparr> 1 10 ''#000000'' ''#5A5A5A'')) ! 7
       = [(62, 62, 62)]
   \<and> exact_interpolation 0 90 7 10 = 63"
proof -
  have s: "sized \<lparr>rows = replicate 10 [(255, 255, 255)], texts = []\<rparr> 1 10"
    by (simp add: sized_def list_all_iff)
  have b0: "byte 0" and b90: "byte 90" by (simp_all add: byte_def)
  from gradient_rows[OF s _ hex_black b0 b0 b0 hex_grey b90 b90 b90]
  obtain d' where run: "create_gradient_background
        \<lparr>rows = replicate 10 [(255, 255, 255)], texts = []\<rparr> 1 10 ''#000000'' ''#5A5A5A'' = Ok d'"
    and r: "\<forall>y. 0 \<le> y \<and> y < 10 \<longrightarrow> rows d' ! nat y = replicate (nat 1)
              (channel 0 90 (py_truediv y 10), channel 0 90 (py_truediv y 10),
               channel 0 90 (py_truediv y 10))"
    by auto
  from r[rule_format, of 7] have "rows d' ! 7 = [(62, 62, 62)]"
    by (simp add: grey_row_7_of_10)
  moreover have "exact_interpolation 0 90 7 10 = 63"
    by (simp add: exact_interpolation_def py_int_of_float_def)
  ultimately show ?thesis by (simp add: run)
qed

text \<open>
  C3, as amended. The code has no check of the dimensions and no dimension error. For
  every width and height with \<open>width \<le> 0\<close> or \<open>height \<le> 0\<close> and every pair of
  valid colours, \<open>create_gradient_background\<close> returns normally, with the same number
  of rows and the same text draws; with \<open>height \<le> 0\<close> the loop body never runs and the
  canvas is unchanged; with \<open>width \<le> 0\<close> no pixel right of column 0 changes. The claim
  as stated fails: width 0 and height 0 return normally.
\<close>

theorem gradient_nonpositive_size_returns:
  assumes "width \<le> 0 \<or> height \<le> 0"
    and "valid_color color_top" "valid_color color_bottom"
  shows "\<exists>d'. create_gradient_background d width height color_top color_bottom = Ok d'
      \<and> texts d' = texts d
      \<and> length (rows d') = length (rows d)
      \<and> (height \<le> 0 \<longrightarrow> d' = d)
      \<and> (width \<le> 0 \<longrightarrow>
           (\<forall>i < length (rows d). length (rows d' ! i) = length (rows d ! i)
              \<and> (\<forall>x. 0 < x \<and> x < length (rows d ! i) \<longrightarrow> rows d' ! i ! x = rows d ! i ! x)))"
proof -
  from valid_color_parses[OF assms(2)] obtain T where T: "hex_to_rgb color_top = Inr T"
    by blast
  from valid_color_parses[OF assms(3)] obtain B where B: "hex_to_rgb color_bottom = Inr B"
    by blast
  from gradient_loop_any[of "py_range 0 height" T B width height d]
  obtain d' where run: "for_each (py_range 0 height) (gradient_row T B width height) d = Ok d'"
    and t: "texts d' = texts d" and l: "length (rows d') = length (rows d)"
    and r: "\<forall>i < length (rows d). length (rows d' ! i) = length (rows d ! i)
            \<and> (\<forall>x. max 0 width < int x \<and> x < length (rows d ! i) \<longrightarrow>
                  rows d' ! i ! x = rows d ! i ! x)"
    by blast
  have c: "create_gradient_background d width height color_top color_bottom = Ok d'"
    by (simp add: gradient_runs[OF T B] run)
  have e: "height \<le> 0 \<longrightarrow> d' = d"
    using gradient_empty_range[OF T B, of height d width] c by auto
  have k: "width \<le> 0 \<longrightarrow>
           (\<forall>i < length (rows d). length (rows d' ! i) = length (rows d ! i)
              \<and> (\<forall>x. 0 < x \<and> x < length (rows d ! i) \<longrightarrow> rows d' ! i ! x = rows d ! i ! x))"
    using r by (auto simp: max_def)
  from c t l e k show ?thesis by blast
qed

theorem gradient_nonpositive_size_returns_witness:
  "((0::int) \<le> 0 \<or> (0::int) \<le> 0)
   \<and> valid_color ''#5BA3FF'' \<and> valid_color ''#1E5BB8''
   \<and> create_gradient_background \<lparr>rows = [[(1, 2, 3)]], texts = []\<rparr> 0 0
        ''#5BA3FF'' ''#1E5BB8'' = Ok \<lparr>rows = [[(1, 2, 3)]], texts = []\<rparr>"
proof -
  have z: "(0::int) \<le> 0 \<or> (0::int) \<le> 0" by simp
  from gradient_nonpositive_size_returns[OF z valid_light valid_dark,
      of "\<lparr>rows = [[(1, 2, 3)]], texts = []\<rparr>"]
  show ?thesis using valid_light valid_dark by auto
qed

theorem gradient_zero_size_is_no_error:
  "create_gradient_background \<lparr>rows = [], texts = []\<rparr> 0 0 ''#5BA3FF'' ''#1E5BB8''
     = Ok \<lparr>rows = [], texts = []\<rparr>"
  by (simp add: gradient_empty_range[OF hex_light hex_dark])




text \<open>
  C6. For every positive width and height, every image of that size, every pair of valid
  colours and every column, each channel of the gradient is monotonic in the row: from a
  row \<open>y1\<close> to a later row \<open>y2\<close> it does not decrease when the bottom channel exceeds
  the top channel, and does not increase when the bottom channel is smaller. This holds
  for the rounded float arithmetic of the code, rounding being monotonic.
\<close>

theorem gradient_channels_monotone:
  assumes "0 < width" "0 < height" "sized d width height"
    and "valid_color color_top" "valid_color color_bottom"
    and "hex_to_rgb color_top = Inr (r1, g1, b1)"
    and "hex_to_rgb color_bottom = Inr (r2, g2, b2)"
    and "0 \<le> y1" "y1 \<le> y2" "y2 < height" "x < nat width"
  shows "\<exists>d' ra ga ba rb gb bb.
      create_gradient_background d width height color_top color_bottom = Ok d'
      \<and> rows d' ! nat y1 ! x = (ra, ga, ba)
      \<and> rows d' ! nat y2 ! x = (rb, gb, bb)
      \<and> (r1 < r2 \<longrightarrow> ra \<le> rb) \<and> (r2 < r1 \<longrightarrow> rb \<le> ra)
      \<and> (g1 < g2 \<longrightarrow> ga \<le> gb) \<and> (g2 < g1 \<longrightarrow> gb \<le> ga)
      \<and> (b1 < b2 \<longrightarrow> ba \<le> bb) \<and> (b2 < b1 \<longrightarrow> bb \<le> ba)"
proof -
  note t = valid_bytes[OF assms(4,6)] and b = valid_bytes[OF assms(5,7)]
  from gradient_rows[OF assms(3,1) assms(6) t assms(7) b]
  obtain d' where run: "create_gradient_background d width height color_top color_bottom = Ok d'"
    and r: "\<forall>y. 0 \<le> y \<and> y < height \<longrightarrow> rows d' ! nat y = replicate (nat width)
              (channel r1 r2 (py_truediv y height), channel g1 g2 (py_truediv y height),
               channel b1 b2 (py_truediv y height))"
    by blast
  have p1: "rows d' ! nat y1 ! x = (channel r1 r2 (py_truediv y1 height),
      channel g1 g2 (py_truediv y1 height), channel b1 b2 (py_truediv y1 height))"
    using r[rule_format, of y1] assms(8-11) by simp
  have p2: "rows d' ! nat y2 ! x = (channel r1 r2 (py_truediv y2 height),
      channel g1 g2 (py_truediv y2 height), channel b1 b2 (py_truediv y2 height))"
    using r[rule_format, of y2] assms(8-11) by simp
  have m: "py_truediv y1 height \<le> py_truediv y2 height"
    using assms(2,9) by (rule py_truediv_mono)
  have up: "c1 < c2 \<longrightarrow> channel c1 c2 (py_truediv y1 height) \<le> channel c1 c2 (py_truediv y2 height)"
    if "byte c1" "byte c2" for c1 c2
    using channel_mono_up[OF byte_abs[OF that(1)] byte_abs[OF that(2)] _ m] by simp
  have down: "c2 < c1 \<longrightarrow> channel c1 c2 (py_truediv y2 height) \<le> channel c1 c2 (py_truediv y1 height)"
    if "byte c1" "byte c2" for c1 c2
    using channel_mono_down[OF byte_abs[OF that(1)] byte_abs[OF that(2)] _ m] by simp
  from run p1 p2 up[OF t(1) b(1)] down[OF t(1) b(1)] up[OF t(2) b(2)] down[OF t(2) b(2)]
    up[OF t(3) b(3)] down[OF t(3) b(3)]
  show ?thesis by blast
qed

theorem gradient_channels_monotone_witness:
  "(0::int) < 1 \<and> (0::int) < 2
   \<and> sized \<lparr>rows = [[(9, 9, 9)], [(9, 9, 9)]], texts = []\<rparr> 1 2
   \<and> valid_color ''#000000'' \<and> valid_color ''#5A5A5A''
   \<and> hex_to_rgb ''#000000'' = Inr (0, 0, 0) \<and> hex_to_rgb ''#5A5A5A'' = Inr (90, 90, 90)
   \<and> (0::int) \<le> 0 \<and> (0::int) \<le> 1 \<and> (1::int) < 2 \<and> (0::nat) < nat 1
   \<and> (\<exists>d' ra ga ba rb gb bb.
          create_gradient_background \<lparr>rows = [[(9, 9, 9)], [(9, 9, 9)]], texts = []\<rparr> 1 2
              ''#000000'' ''#5A5A5A'' = Ok d'
          \<and> rows d' ! nat 0 ! 0 = (ra, ga, ba) \<and> rows d' ! nat 1 ! 0 = (rb, gb, bb)
          \<and> ra \<le> rb \<and> ga \<le> gb \<and> ba \<le> bb)"
proof -
  have s: "sized \<lparr>rows = [[(9, 9, 9)], [(9, 9, 9)]], texts = []\<rparr> 1 2"
    by (simp add: sized_def)
  have w: "(0::int) < 1" and h: "(0::int) < 2" by simp_all
  have y: "(0::int) \<le> 0" "(0::int) \<le> 1" "(1::int) < 2" "(0::nat) < nat 1" by simp_all
  from gradient_channels_monotone[OF w h s valid_black valid_grey hex_black hex_grey y]
  show ?thesis using s valid_black valid_grey hex_black hex_grey by simp
qed

text \<open>
  C8. The gradient is a function of width, height and the two colours: two runs with the
  same width, height and valid colours on images of that size produce the same pixels,
  whatever the two images held before.
\<close>

theorem gradient_deterministic:
  assumes "0 < width" "0 < height"
    and "sized d1 width height" "sized d2 width height"
    and "valid_color color_top" "valid_color color_bottom"
  shows "\<exists>a b. create_gradient_background d1 width height color_top color_bottom = Ok a
      \<and> create_gradient_background d2 width height color_top color_bottom = Ok b
      \<and> rows a = rows b"
proof -
  from valid_color_parses[OF assms(5)] obtain r1 g1 b1
    where T: "hex_to_rgb color_top = Inr (r1, g1, b1)" by blast
  from valid_color_parses[OF assms(6)] obtain r2 g2 b2
    where B: "hex_to_rgb color_bottom = Inr (r2, g2, b2)" by blast
  note t = valid_bytes[OF assms(5) T] and b = valid_bytes[OF assms(6) B]
  let ?c = "\<lambda>y. (channel r1 r2 (py_truediv y height), channel g1 g2 (py_truediv y height),
               channel b1 b2 (py_truediv y height))"
  from gradient_rows[OF assms(3,1) T t B b]
  obtain a where ra: "create_gradient_background d1 width height color_top color_bottom = Ok a"
    and sa: "sized a width height"
    and pa: "\<forall>y. 0 \<le> y \<and> y < height \<longrightarrow> rows a ! nat y = replicate (nat width) (?c y)"
    by blast
  from gradient_rows[OF assms(4,1) T t B b]
  obtain b' where rb: "create_gradient_background d2 width height color_top color_bottom = Ok b'"
    and sb: "sized b' width height"
    and pb: "\<forall>y. 0 \<le> y \<and> y < height \<longrightarrow> rows b' ! nat y = replicate (nat width) (?c y)"
    by blast
  have "rows a = rows b'"
  proof (rule nth_equalityI)
    show "length (rows a) = length (rows b')" using sa sb by (simp add: sized_def)
  next
    fix i assume "i < length (rows a)"
    then have i: "0 \<le> int i \<and> int i < height" using sa by (simp add: sized_def)
    from pa[rule_format, OF i] pb[rule_format, OF i] show "rows a ! i = rows b' ! i" by simp
  qed
  with ra rb show ?thesis by blast
qed

theorem gradient_deterministic_witness:
  "(0::int) < 1 \<and> (0::int) < 2
   \<and> sized \<lparr>rows = [[(9, 9, 9)], [(9, 9, 9)]], texts = []\<rparr> 1 2
   \<and> sized \<lparr>rows = [[(1, 2, 3)], [(4, 5, 6)]], texts = []\<rparr> 1 2
   \<and> valid_color ''#000000'' \<and> valid_color ''#5A5A5A''
   \<and> (\<exists>a b. create_gradient_background \<lparr>rows = [[(9, 9, 9)], [(9, 9, 9)]], texts = []\<rparr> 1 2
              ''#000000'' ''#5A5A5A'' = Ok a
          \<and> create_gradient_background \<lparr>rows = [[(1, 2, 3)], [(4, 5, 6)]], texts = []\<rparr> 1 2
              ''#000000'' ''#5A5A5A'' = Ok b
          \<and> rows a = rows b)"
proof -
  have s1: "sized \<lparr>rows = [[(9, 9, 9)], [(9, 9, 9)]], texts = []\<rparr> 1 2"
    by (simp add: sized_def)
  have s2: "sized \<lparr>rows = [[(1, 2, 3)], [(4, 5, 6)]], texts = []\<rparr> 1 2"
    by (simp add: sized_def)
  have w: "(0::int) < 1" and h: "(0::int) < 2" by simp_all
  from gradient_deterministic[OF w h s1 s2 valid_black valid_grey]
  show ?thesis using s1 s2 valid_black valid_grey by simp
qed

text \<open>
  C7, as amended. For every requested size and boldness flag, and whatever the file
  system and the font loader do, \<open>get_font\<close> returns a font and never raises, the
  built-in default font being taken to load: a candidate that does not exist or fails to
  load is passed over, the result is the font loaded from the first candidate path, in
  the order of the list, that exists and loads, and the built-in default font when there
  is none; in particular when no candidate path exists. Nothing in \<open>get_font\<close> checks
  that the handle it returns can be used: where the library can neither measure nor draw
  with the default font, the handle returned on exhaustion renders no text, and every
  label drawn with it is skipped.
\<close>

theorem get_font_never_raises:
  "\<exists>f. get_font P sz bold = Inr f
      \<and> (case List.find (usable P sz) (candidates bold) of
            None \<Rightarrow> f = DefaultFont
          | Some p \<Rightarrow> truetype P p sz = Inr f)
      \<and> ((\<forall>p \<in> set (candidates bold). \<not> path_exists P p) \<longrightarrow> f = DefaultFont)"
proof -
  from font_loop_result[of P sz "font_options bold"]
  obtain f where f: "get_font P sz bold = Inr f"
    and c: "case List.find (usable P sz) (candidates bold) of
            None \<Rightarrow> f = DefaultFont
          | Some p \<Rightarrow> truetype P p sz = Inr f"
    unfolding get_font_def candidates_def by blast
  have "(\<forall>p \<in> set (candidates bold). \<not> path_exists P p) \<longrightarrow> f = DefaultFont"
    using c find_none_absent[of "candidates bold" P sz] by auto
  with f c show ?thesis by blast
qed

theorem get_font_never_raises_witness:
  "candidates True =
     [''/system/fonts/Roboto-Bold.ttf'', ''/system/fonts/DroidSans-Bold.ttf'',
      ''/data/data/com.termux/files/usr/share/fonts/TTF/DejaVuSans-Bold.ttf'']
   \<and> get_font \<lparr>path_exists = (\<lambda>p. False),
                 truetype = (\<lambda>p n. Inl (LibraryError ''cannot open resource'')),
                 measure = (\<lambda>f t. Inr (0, 0, 10, 10)), draws = (\<lambda>f t. None)\<rparr> 512 True
       = Inr DefaultFont"
  using get_font_never_raises[of "\<lparr>path_exists = (\<lambda>p. False),
                 truetype = (\<lambda>p n. Inl (LibraryError ''cannot open resource'')),
                 measure = (\<lambda>f t. Inr (0, 0, 10, 10)), draws = (\<lambda>f t. None)\<rparr>" 512 True]
  by (auto simp: candidates_eq)

theorem default_font_need_not_render:
  "get_font no_fonts 512 True = Inr DefaultFont
   \<and> \<not> renders no_fonts DefaultFont ''Rx''"
proof -
  have "List.find (usable no_fonts 512) (candidates True) = None"
    by (rule find_none_absent) (simp add: no_fonts_def)
  moreover from font_loop_result[of no_fonts 512 "font_options True"]
  obtain f where "get_font no_fonts 512 True = Inr f"
    and "case List.find (usable no_fonts 512) (candidates True) of
           None \<Rightarrow> f = DefaultFont | Some p \<Rightarrow> truetype no_fonts p 512 = Inr f"
    unfolding get_font_def candidates_def by blast
  ultimately have "get_font no_fonts 512 True = Inr DefaultFont" by simp
  moreover have "\<not> renders no_fonts DefaultFont ''Rx''"
    by (simp add: renders_def no_fonts_def)
  ultimately show ?thesis by simp
qed

text \<open>
  C5, as amended. \<open>draw_text_with_outline\<close> has no handler of its own: with a font
  that cannot draw the text it raises, on its first draw, and leaves the canvas as it
  was. Every label of the three images sits in a \<^verbatim>\<open>try\<close> block of its caller,
  which measures the text first. When the font cannot measure or draw the text, the
  block ends without raising and the canvas is exactly as before the label, with no
  halo and no fill draw. The handler is silent for every label but one: the
  \<^verbatim>\<open>Rx\<close> label of the app icon prints a note with the exception. Each of the three
  image functions returns its image whatever the fonts do, and the text draws of the
  image are those of its labels in order, a label that cannot be rendered adding none.
  The claim as stated fails in its word "silently": with no usable font the app icon
  prints the note line.
\<close>

theorem unrenderable_label_is_skipped:
  "(draws P f t \<noteq> None \<longrightarrow>
      (\<exists>e. draw_text_with_outline P d position t f fill_color outline_color w = Raise e d))
   \<and> (\<not> renders P f t \<longrightarrow>
        fst (try_label P h t f place fill_color outline_color w (d, out)) = d
        \<and> (h = Pass \<longrightarrow>
             snd (try_label P h t f place fill_color outline_color w (d, out)) = out)
        \<and> (h = PrintNote \<longrightarrow>
             (\<exists>e. snd (try_label P h t f place fill_color outline_color w (d, out))
                    = out @ [Note e])))
   \<and> (0 \<le> sz \<longrightarrow>
        (\<exists>f1 f2 f3 icon lines.
           get_font P (scaled sz (1 / 2)) True = Inr f1
           \<and> get_font P (scaled sz (1 / 10)) True = Inr f2
           \<and> get_font P (scaled sz (55 / 1000)) False = Inr f3
           \<and> create_app_icon P sz out = (Inr icon, lines)
           \<and> texts icon =
               label_draws P ''Rx'' f1 (centre_place sz sz (5 / 100))
                 (255, 255, 255) (30, 91, 184) 4
               @ label_draws P ''UWtopia'' f2 (row_place sz sz (15 / 100))
                 (255, 255, 255) (30, 91, 184) 2
               @ label_draws P ''@DrEndris'' f3 (row_place sz sz (85 / 100))
                 (255, 215, 0) (30, 91, 184) 2
           \<and> (renders P f1 ''Rx'' \<longrightarrow> lines = out @ [Creating ''app icon'' sz sz])
           \<and> (\<not> renders P f1 ''Rx'' \<longrightarrow>
                 (\<exists>e. lines = out @ [Creating ''app icon'' sz sz, Note e]))))
   \<and> (0 \<le> sz \<longrightarrow>
        (\<exists>f1 f2 icon.
           get_font P (scaled sz (55 / 100)) True = Inr f1
           \<and> get_font P (scaled sz (8 / 100)) True = Inr f2
           \<and> create_adaptive_icon P sz out =
               (Inr icon, out @ [Creating ''adaptive icon'' sz sz])
           \<and> texts icon =
               label_draws P ''Rx'' f1 (centre_place sz sz (8 / 100))
                 (46, 124, 238) (255, 255, 255) 3
               @ label_draws P ''UWtopia'' f2 (row_place sz sz (65 / 100))
                 (46, 124, 238) (255, 255, 255) 2))
   \<and> (0 \<le> width \<and> 0 \<le> height \<longrightarrow>
        (\<exists>f1 f2 f3 f4 splash.
           get_font P (scaled width (1 / 2)) True = Inr f1
           \<and> get_font P (scaled width (12 / 100)) True = Inr f2
           \<and> get_font P (scaled width (6 / 100)) False = Inr f3
           \<and> get_font P (scaled width (55 / 1000)) False = Inr f4
           \<and> create_splash_screen P width height out =
               (Inr splash, out @ [Creating ''splash screen'' width height])
           \<and> texts splash =
               label_draws P ''Rx'' f1 (centre_place width height (1 / 10))
                 (255, 255, 255) (30, 91, 184) 5
               @ label_draws P ''UWtopia Rx'' f2 (row_place width height (15 / 100))
                 (255, 255, 255) (30, 91, 184) 3
               @ label_draws P ''Medical Question Bank'' f3 (row_place width height (24 / 100))
                 (255, 255, 255) (30, 91, 184) 2
               @ label_draws P ''by @DrEndris'' f4 (row_place width height (88 / 100))
                 (255, 215, 0) (30, 91, 184) 2))"
proof (intro conjI impI)
  assume "draws P f t \<noteq> None"
  then obtain e where "draws P f t = Some e" by auto
  then show "\<exists>e. draw_text_with_outline P d position t f fill_color outline_color w = Raise e d"
    by (rule stamp_fails)
next
  assume n: "\<not> renders P f t"
  show "fst (try_label P h t f place fill_color outline_color w (d, out)) = d"
    using try_label_unrendered(1)[OF n, of h place fill_color outline_color w "(d, out)"] by simp
  show "snd (try_label P h t f place fill_color outline_color w (d, out)) = out" if "h = Pass"
    using try_label_unrendered(2)[OF n, of place fill_color outline_color w "(d, out)"] that
    by simp
  show "\<exists>e. snd (try_label P h t f place fill_color outline_color w (d, out)) = out @ [Note e]"
    if "h = PrintNote"
    using try_label_unrendered(3)[OF n, of place fill_color outline_color w "(d, out)"] that
    by simp
next
  assume "0 \<le> sz"
  from create_app_icon_result[OF this, of P out]
  show "\<exists>f1 f2 f3 icon lines.
           get_font P (scaled sz (1 / 2)) True = Inr f1
           \<and> get_font P (scaled sz (1 / 10)) True = Inr f2
           \<and> get_font P (scaled sz (55 / 1000)) False = Inr f3
           \<and> create_app_icon P sz out = (Inr icon, lines)
           \<and> texts icon =
               label_draws P ''Rx'' f1 (centre_place sz sz (5 / 100))
                 (255, 255, 255) (30, 91, 184) 4
               @ label_draws P ''UWtopia'' f2 (row_place sz sz (15 / 100))
                 (255, 255, 255) (30, 91, 184) 2
               @ label_draws P ''@DrEndris'' f3 (row_place sz sz (85 / 100))
                 (255, 215, 0) (30, 91, 184) 2
           \<and> (renders P f1 ''Rx'' \<longrightarrow> lines = out @ [Creating ''app icon'' sz sz])
           \<and> (\<not> renders P f1 ''Rx'' \<longrightarrow>
                 (\<exists>e. lines = out @ [Creating ''app icon'' sz sz, Note e]))"
    by blast
next
  assume "0 \<le> sz"
  then show "\<exists>f1 f2 icon.
           get_font P (scaled sz (55 / 100)) True = Inr f1
           \<and> get_font P (scaled sz (8 / 100)) True = Inr f2
           \<and> create_adaptive_icon P sz out =
               (Inr icon, out @ [Creating ''adaptive icon'' sz sz])
           \<and> texts icon =
               label_draws P ''Rx'' f1 (centre_place sz sz (8 / 100))
                 (46, 124, 238) (255, 255, 255) 3
               @ label_draws P ''UWtopia'' f2 (row_place sz sz (65 / 100))
                 (46, 124, 238) (255, 255, 255) 2"
    by (rule create_adaptive_icon_result)
next
  assume "0 \<le> width \<and> 0 \<le> height"
  then have "0 \<le> width" "0 \<le> height" by simp_all
  then show "\<exists>f1 f2 f3 f4 splash.
           get_font P (scaled width (1 / 2)) True = Inr f1
           \<and> get_font P (scaled width (12 / 100)) True = Inr f2
           \<and> get_font P (scaled width (6 / 100)) False = Inr f3
           \<and> get_font P (scaled width (55 / 1000)) False = Inr f4
           \<and> create_splash_screen P width height out =
               (Inr splash, out @ [Creating ''splash screen'' width height])
           \<and> texts splash =
               label_draws P ''Rx'' f1 (centre_place width height (1 / 10))
                 (255, 255, 255) (30, 91, 184) 5
               @ label_draws P ''UWtopia Rx'' f2 (row_place width height (15 / 100))
                 (255, 255, 255) (30, 91, 184) 3
               @ label_draws P ''Medical Question Bank'' f3 (row_place width height (24 / 100))
                 (255, 255, 255) (30, 91, 184) 2
               @ label_draws P ''by @DrEndris'' f4 (row_place width height (88 / 100))
                 (255, 215, 0) (30, 91, 184) 2"
    by (rule create_splash_screen_result)
qed

theorem unrenderable_label_is_skipped_witness:
  "\<not> returns (draw_text_with_outline no_fonts
        \<lparr>rows = [[(1, 2, 3)]], texts = []\<rparr> (0, 0) ''Rx'' DefaultFont WHITE DARK_BLUE 4)
   \<and> canvas_of (draw_text_with_outline no_fonts
        \<lparr>rows = [[(1, 2, 3)]], texts = []\<rparr> (0, 0) ''Rx'' DefaultFont WHITE DARK_BLUE 4)
       = \<lparr>rows = [[(1, 2, 3)]], texts = []\<rparr>
   \<and> fst (try_label no_fonts Pass ''Rx'' DefaultFont (centre_place 1024 1024 (5 / 100))
        WHITE DARK_BLUE 4 (\<lparr>rows = [[(1, 2, 3)]], texts = []\<rparr>, []))
       = \<lparr>rows = [[(1, 2, 3)]], texts = []\<rparr>
   \<and> snd (try_label no_fonts Pass ''Rx'' DefaultFont (centre_place 1024 1024 (5 / 100))
        WHITE DARK_BLUE 4 (\<lparr>rows = [[(1, 2, 3)]], texts = []\<rparr>, [])) = []
   \<and> (\<exists>icon lines. create_app_icon no_fonts 1024 [] = (Inr icon, lines) \<and> texts icon = [])
   \<and> (\<exists>icon. create_adaptive_icon no_fonts 1024 []
           = (Inr icon, [Creating ''adaptive icon'' 1024 1024])
         \<and> texts icon = [])
   \<and> (\<exists>splash. create_splash_screen no_fonts 1284 2778 []
           = (Inr splash, [Creating ''splash screen'' 1284 2778])
         \<and> texts splash = [])"
proof -
  have nr: "\<not> renders no_fonts f t" for f t
    by (simp add: renders_def no_fonts_def)
  have dr: "draws no_fonts DefaultFont ''Rx'' \<noteq> None" by (simp add: no_fonts_def)
  have ld: "label_draws no_fonts t f place fc oc w = []" for t f place fc oc w
    by (simp add: label_draws_def no_fonts_def)
  note inst = unrenderable_label_is_skipped[of no_fonts
      DefaultFont "''Rx''" "\<lparr>rows = [[(1, 2, 3)]], texts = []\<rparr>" "(0, 0)" WHITE DARK_BLUE 4
      Pass "centre_place 1024 1024 (5 / 100)" "[]" 1024 1284 2778]
  from inst dr obtain e where r: "draw_text_with_outline no_fonts
        \<lparr>rows = [[(1, 2, 3)]], texts = []\<rparr> (0, 0) ''Rx'' DefaultFont WHITE DARK_BLUE 4
      = Raise e \<lparr>rows = [[(1, 2, 3)]], texts = []\<rparr>"
    by blast
  from inst nr have b: "fst (try_label no_fonts Pass ''Rx'' DefaultFont
        (centre_place 1024 1024 (5 / 100))
        WHITE DARK_BLUE 4 (\<lparr>rows = [[(1, 2, 3)]], texts = []\<rparr>, []))
       = \<lparr>rows = [[(1, 2, 3)]], texts = []\<rparr>"
    and c: "snd (try_label no_fonts Pass ''Rx'' DefaultFont (centre_place 1024 1024 (5 / 100))
        WHITE DARK_BLUE 4 (\<lparr>rows = [[(1, 2, 3)]], texts = []\<rparr>, [])) = []"
    by blast+
  from inst have i1: "\<exists>icon lines. create_app_icon no_fonts 1024 [] = (Inr icon, lines)
      \<and> texts icon = []"
    unfolding ld by auto
  from inst have i2: "\<exists>icon. create_adaptive_icon no_fonts 1024 []
        = (Inr icon, [Creating ''adaptive icon'' 1024 1024]) \<and> texts icon = []"
    unfolding ld by auto
  from inst have i3: "\<exists>splash. create_splash_screen no_fonts 1284 2778 []
           = (Inr splash, [Creating ''splash screen'' 1284 2778]) \<and> texts splash = []"
    unfolding ld by auto
  from r b c i1 i2 i3 show ?thesis by simp
qed

theorem app_icon_label_failure_prints_note:
  "snd (create_app_icon no_fonts 1024 []) =
     [Creating ''app icon'' 1024 1024,
      Note (LibraryError ''Only supported for TrueType fonts'')]"
proof -
  have w: "(0::int) \<le> 1024" by simp
  have m: "measure no_fonts f ''Rx''
      = Inl (LibraryError ''Only supported for TrueType fonts'')" for f
    by (simp add: no_fonts_def)
  from create_app_icon_result[OF w, of no_fonts "[]"] m
  show ?thesis by auto
qed

end
